theory Spec2Isabelle
  imports Complex_Main "HOL-Library.AList" "HOL-Library.Multiset"
begin

section \<open>Errors and outcomes\<close>

text \<open>
  The Python exceptions that the coordinator of \<^verbatim>\<open>main_nn.py\<close> can raise: a failed
  dictionary lookup, a failed list index, the \<^verbatim>\<open>ValueError\<close> of
  \<^verbatim>\<open>numpy.random.choice\<close>, the division by \<^verbatim>\<open>len(local_losses)\<close>, and whatever
  \<^verbatim>\<open>fd.federated_averaging\<close> raises.
\<close>

datatype error = KeyError | IndexError | ValueError | ZeroDivisionError | AggregationError

text \<open>
  A call of the coordinator returns a value, raises, or blocks for ever in
  \<^verbatim>\<open>wait\<close> / \<^verbatim>\<open>recv\<close>.
\<close>

datatype 'a outcome = Returned 'a | Raised error | Blocked

section \<open>The selection: \<^verbatim>\<open>np.random.choice(range(n), k, replace=False)\<close>\<close>

text \<open>
  numpy's legacy generator draws a sample without replacement as the first \<open>k\<close> entries of
  a Fisher-Yates shuffle of \<open>range(n)\<close>. The raw generator is a parameter
  \<open>rk :: 'g \<Rightarrow> nat \<times> 'g\<close>; a draw from \<open>[0, mx]\<close> is the raw value reduced modulo
  \<open>mx + 1\<close> (numpy rejects and redraws instead; the distribution is not modelled, only the
  range).
\<close>

definition rk_interval :: "('g \<Rightarrow> nat \<times> 'g) \<Rightarrow> nat \<Rightarrow> 'g \<Rightarrow> nat \<times> 'g" where
  "rk_interval rk mx g = (case rk g of (r, g') \<Rightarrow> (r mod (mx + 1), g'))"

text \<open>\<^verbatim>\<open>for i in reversed(range(1, n)): j = rk_interval(i); x[i], x[j] = x[j], x[i]\<close>\<close>

primrec shuffle_from :: "('g \<Rightarrow> nat \<times> 'g) \<Rightarrow> nat \<Rightarrow> nat list \<Rightarrow> 'g \<Rightarrow> nat list \<times> 'g" where
  "shuffle_from rk 0 x g = (x, g)"
| "shuffle_from rk (Suc i) x g =
     (case rk_interval rk (Suc i) g of
        (j, g') \<Rightarrow> shuffle_from rk i (x[Suc i := x ! j, j := x ! Suc i]) g')"

definition permutation :: "('g \<Rightarrow> nat \<times> 'g) \<Rightarrow> nat \<Rightarrow> 'g \<Rightarrow> nat list \<times> 'g" where
  "permutation rk n g = shuffle_from rk (n - 1) [0..<n] g"

text \<open>
  \<^verbatim>\<open>choice\<close> raises \<^verbatim>\<open>ValueError\<close> for an empty population with a non-zero sample size,
  for a sample larger than the population and for a negative size; otherwise it returns
  \<^verbatim>\<open>permutation(n)[:k]\<close> (the population is \<^verbatim>\<open>range(n)\<close>, so indices are the values).
\<close>

definition choice :: "('g \<Rightarrow> nat \<times> 'g) \<Rightarrow> nat \<Rightarrow> int \<Rightarrow> 'g \<Rightarrow> (nat list) outcome \<times> 'g" where
  "choice rk n k g =
     (if n = 0 \<and> k \<noteq> 0 then (Raised ValueError, g)
      else if k > int n then (Raised ValueError, g)
      else if k < 0 then (Raised ValueError, g)
      else (case permutation rk n g of (p, g') \<Rightarrow> (Returned (take (nat k) p), g')))"

section \<open>Data model\<close>

text \<open>
  The attributes of the torchvision dataset that \<^verbatim>\<open>train_federated\<close> reads: the list
  \<^verbatim>\<open>classes\<close> and the dictionary \<^verbatim>\<open>class_to_idx\<close> (in insertion order); the samples
  are opaque.
\<close>

record 'd CIFAR10 =
  classes :: "string list"
  class_to_idx :: "(string \<times> nat) list"
  samples :: 'd

record Settings =
  num_local_epochs :: int
  num_local_batch :: int
  learning_rate :: real
  device :: string
  iid :: bool
  num_global_epochs :: int
  seed :: int

record EdgeDeviceSettings =
  epochs :: int
  batch_size :: int
  edge_learning_rate :: real
  edge_device :: string

record 'm EdgeDeviceResult =
  res_name :: string
  res_model :: 'm
  res_loss :: real

text \<open>
  What the coordinator knows of a process: created, started, or signalled to stop.
  \<^verbatim>\<open>Process.terminate()\<close> only sends the signal and returns; the process stops some
  time later, and until then it may still run. The coordinator never learns that a process
  has finished (that takes a \<^verbatim>\<open>join\<close>), so there is no state for it.
\<close>

datatype pstate = Initial | Started | Signalled

text \<open>
  \<^verbatim>\<open>fd.EdgeDevice\<close>: a process object with the attributes its constructor is given. A
  pipe is identified by its creation number; the coordinator's end writes the queue
  \<open>to_device\<close> and reads \<open>to_server\<close>, the device's end does the reverse.
\<close>

record 'd EdgeDevice =
  dev_name :: string
  dev_handle :: nat
  dev_dataset :: "'d CIFAR10"
  dev_settings :: EdgeDeviceSettings
  dev_state :: pstate

record EdgeDeviceConnection =
  con_handle :: nat
  con_process :: nat

text \<open>
  What the run does that can be observed from outside: the calls on process objects
  (\<^verbatim>\<open>start\<close>, \<^verbatim>\<open>terminate\<close>, \<^verbatim>\<open>join\<close>), the result of each selection, each
  \<^verbatim>\<open>send\<close> and \<^verbatim>\<open>recv\<close> on the coordinator's pipe ends, each call of the aggregator
  and the per-round report. The other \<^verbatim>\<open>print\<close> lines are not recorded.
\<close>

datatype 'm event =
    Start nat
  | Select "nat list"
  | Send nat 'm
  | Recv nat "'m EdgeDeviceResult"
  | Aggregate "'m list"
  | Report nat real
  | Terminate nat
  | Join nat

text \<open>
  What a device does on its own end of the pipe: it receives a model, it sends a result.
\<close>

datatype 'm device_event =
    Received nat 'm
  | Sent nat "'m EdgeDeviceResult"

primrec event_device :: "'m device_event \<Rightarrow> nat" where
  "event_device (Received pid m) = pid"
| "event_device (Sent pid r) = pid"

text \<open>
  The parts of the repository and of its libraries that \<^verbatim>\<open>main_nn.py\<close> calls and that
  are taken as parameters: the aggregator \<^verbatim>\<open>fd.federated_averaging\<close> (it may raise),
  the two dataset splits of \<^verbatim>\<open>utils.data\<close>, the constant
  \<^verbatim>\<open>constants.MAX_USERS_IN_ROUND\<close>, the raw generator behind \<^verbatim>\<open>np.random\<close>, the local
  training of a device and the constructor of the initial model (which depends on the
  torch seed).
\<close>

record ('m, 'd, 'g) collaborators =
  federated_averaging :: "'m list \<Rightarrow> error + 'm"
  split_dataset_iid :: "'d CIFAR10 \<Rightarrow> nat \<Rightarrow> 'd CIFAR10 list"
  split_dataset_non_iid :: "'d CIFAR10 \<Rightarrow> 'd CIFAR10 list"
  MAX_USERS_IN_ROUND :: int
  rk_random :: "'g \<Rightarrow> nat \<times> 'g"
  local_update :: "'d CIFAR10 \<Rightarrow> EdgeDeviceSettings \<Rightarrow> 'm \<Rightarrow> 'm \<times> real"
  CNNCifar10 :: "int \<Rightarrow> 'm"

text \<open>
  The state threaded through the coordinator: numpy's global generator, the pipes and
  processes created so far, the roster \<^verbatim>\<open>device_connections\<close> (a dictionary in insertion
  order), the trace of the coordinator, the trace of the devices, and the environment's
  schedule: each entry is a batch of process numbers that take one step each while the
  coordinator is blocked.
\<close>

record ('m, 'd, 'g) state =
  np_random :: 'g
  pipes :: nat
  to_device :: "nat \<Rightarrow> 'm list"
  to_server :: "nat \<Rightarrow> 'm EdgeDeviceResult list"
  processes :: "'d EdgeDevice list"
  device_connections :: "(nat \<times> EdgeDeviceConnection) list"
  schedule :: "nat list list"
  trace :: "'m event list"
  device_trace :: "'m device_event list"

definition initial_state :: "'g \<Rightarrow> nat list list \<Rightarrow> ('m, 'd, 'g) state" where
  "initial_state g sched =
     \<lparr>np_random = g, pipes = 0, to_device = (\<lambda>_. []), to_server = (\<lambda>_. []),
      processes = [], device_connections = [], schedule = sched, trace = [],
      device_trace = []\<rparr>"

section \<open>The devices\<close>

text \<open>
  Modelled from the spec: the run loop of \<^verbatim>\<open>fd.EdgeDevice\<close> (\<^verbatim>\<open>models/federated.py\<close>
  is not among the sources). A running device blocks on its pipe end; on a model it
  trains locally and sends back one result carrying its own name, the updated model and
  the loss. One step of process \<open>pid\<close> does this for the oldest queued model, and
  does nothing when the process has not been started or has no model queued. A process
  that has been signalled to stop may still take steps: the signal takes effect at a time
  the coordinator does not control, and a process that has stopped is one that the
  schedule never names again. Both pipe operations of the device are recorded in
  \<open>device_trace\<close>.
\<close>

definition device_step ::
  "('m, 'd, 'g) collaborators \<Rightarrow> nat \<Rightarrow> ('m, 'd, 'g) state \<Rightarrow> ('m, 'd, 'g) state" where
  "device_step C pid st =
     (if pid < length (processes st) then
        (let d = processes st ! pid in
         if dev_state d = Started \<or> dev_state d = Signalled then
           (case to_device st (dev_handle d) of
              [] \<Rightarrow> st
            | m # ms \<Rightarrow>
                (case local_update C (dev_dataset d) (dev_settings d) m of
                   (m', l) \<Rightarrow>
                     st\<lparr>to_device := (to_device st)(dev_handle d := ms),
                        to_server := (to_server st)(dev_handle d :=
                          to_server st (dev_handle d) @
                            [\<lparr>res_name = dev_name d, res_model = m', res_loss = l\<rparr>]),
                        device_trace := device_trace st @
                          [Received pid m,
                           Sent pid \<lparr>res_name = dev_name d, res_model = m', res_loss = l\<rparr>]\<rparr>))
         else st)
      else st)"

section \<open>The pipe operations of the coordinator\<close>

text \<open>
  \<^verbatim>\<open>wait(handles)\<close> returns the handles that have a message, in the order given, as soon
  as there is one; until then the environment runs, batch by batch. When the schedule is
  used up no device moves any more and the call blocks for ever.
\<close>

function wait ::
  "('m, 'd, 'g) collaborators \<Rightarrow> nat list \<Rightarrow> ('m, 'd, 'g) state \<Rightarrow>
   (nat list) outcome \<times> ('m, 'd, 'g) state" where
  "wait C hs st =
     (if filter (\<lambda>h. to_server st h \<noteq> []) hs \<noteq> []
      then (Returned (filter (\<lambda>h. to_server st h \<noteq> []) hs), st)
      else (case schedule st of
              [] \<Rightarrow> (Blocked, st)
            | b # bs \<Rightarrow> wait C hs (fold (device_step C) b (st\<lparr>schedule := bs\<rparr>))))"
  by pat_completeness auto

lemma device_step_schedule [simp]: "schedule (device_step C pid st) = schedule st"
  by (simp add: device_step_def Let_def split: list.splits prod.splits)

lemma fold_device_step_schedule [simp]:
  "schedule (fold (device_step C) b st) = schedule st"
  by (induction b arbitrary: st) simp_all

termination wait
  by (relation "measure (\<lambda>(C, hs, st). length (schedule st))") simp_all

declare wait.simps [simp del]

text \<open>\<^verbatim>\<open>handle.recv()\<close>: blocks until the pipe has a message, then takes the oldest.\<close>

definition recv ::
  "('m, 'd, 'g) collaborators \<Rightarrow> nat \<Rightarrow> ('m, 'd, 'g) state \<Rightarrow>
   ('m EdgeDeviceResult) outcome \<times> ('m, 'd, 'g) state" where
  "recv C h st =
     (case wait C [h] st of
        (Returned _, st') \<Rightarrow>
          (case to_server st' h of
             [] \<Rightarrow> (Blocked, st')
           | r # rs \<Rightarrow>
               (Returned r, st'\<lparr>to_server := (to_server st')(h := rs),
                                trace := trace st' @ [Recv h r]\<rparr>))
      | (Raised e, st') \<Rightarrow> (Raised e, st')
      | (Blocked, st') \<Rightarrow> (Blocked, st'))"

text \<open>\<^verbatim>\<open>handle.send(model)\<close>: the pipe is taken as unbounded, so the call never blocks.\<close>

definition send :: "nat \<Rightarrow> 'm \<Rightarrow> ('m, 'd, 'g) state \<Rightarrow> ('m, 'd, 'g) state" where
  "send h m st =
     st\<lparr>to_device := (to_device st)(h := to_device st h @ [m]),
        trace := trace st @ [Send h m]\<rparr>"

section \<open>The coordinator: \<^verbatim>\<open>train_federated\<close>\<close>

text \<open>A \<^verbatim>\<open>for\<close> loop whose body may raise or block.\<close>

fun for_each :: "('a \<Rightarrow> 's \<Rightarrow> unit outcome \<times> 's) \<Rightarrow> 'a list \<Rightarrow> 's \<Rightarrow> unit outcome \<times> 's" where
  "for_each f [] st = (Returned (), st)"
| "for_each f (x # xs) st =
     (case f x st of
        (Returned _, st') \<Rightarrow> for_each f xs st'
      | (Raised e, st') \<Rightarrow> (Raised e, st')
      | (Blocked, st') \<Rightarrow> (Blocked, st'))"

text \<open>\<^verbatim>\<open>idx_to_class = {v: k for k, v in class_to_idx.items()}\<close>\<close>

definition idx_to_class :: "'d CIFAR10 \<Rightarrow> (nat \<times> string) list" where
  "idx_to_class ds = fold (\<lambda>(k, v) acc. AList.update v k acc) (class_to_idx ds) []"

text \<open>The body of the set-up loop (lines 81 to 89).\<close>

definition start_device ::
  "'d CIFAR10 \<Rightarrow> 'd CIFAR10 list \<Rightarrow> EdgeDeviceSettings \<Rightarrow> string \<Rightarrow>
   ('m, 'd, 'g) state \<Rightarrow> unit outcome \<times> ('m, 'd, 'g) state" where
  "start_device ds subsets es device_name st =
     (case map_of (class_to_idx ds) device_name of
        None \<Rightarrow> (Raised KeyError, st)
      | Some device_id \<Rightarrow>
          (let h = pipes st; st1 = st\<lparr>pipes := Suc h\<rparr> in
           if length subsets \<le> device_id then (Raised IndexError, st1)
           else
             (let pid = length (processes st1);
                  dev = \<lparr>dev_name = device_name, dev_handle = h,
                         dev_dataset = subsets ! device_id, dev_settings = es,
                         dev_state = Initial\<rparr>;
                  st2 = st1\<lparr>processes := processes st1 @ [dev],
                            device_connections :=
                              AList.update device_id \<lparr>con_handle = h, con_process = pid\<rparr>
                                (device_connections st1)\<rparr>;
                  st3 = st2\<lparr>processes := (processes st2)[pid := dev\<lparr>dev_state := Started\<rparr>],
                            trace := trace st2 @ [Start pid]\<rparr>
              in (Returned (), st3))))"

text \<open>The selection of a round (lines 95 to 97).\<close>

definition select_users ::
  "('m, 'd, 'g) collaborators \<Rightarrow> nat \<Rightarrow> ('m, 'd, 'g) state \<Rightarrow>
   (nat list) outcome \<times> ('m, 'd, 'g) state" where
  "select_users C num_users st =
     (case choice (rk_random C) num_users (MAX_USERS_IN_ROUND C) (np_random st) of
        (Returned ids, g') \<Rightarrow>
          (Returned ids, st\<lparr>np_random := g', trace := trace st @ [Select ids]\<rparr>)
      | (Raised e, g') \<Rightarrow> (Raised e, st)
      | (Blocked, g') \<Rightarrow> (Blocked, st))"

text \<open>\<^verbatim>\<open>{i: device_connections[i] for i in users_in_round_ids}\<close> (line 99)\<close>

fun connections_in_round ::
  "(nat \<times> EdgeDeviceConnection) list \<Rightarrow> nat list \<Rightarrow> (nat \<times> EdgeDeviceConnection) list \<Rightarrow>
   ((nat \<times> EdgeDeviceConnection) list) outcome" where
  "connections_in_round dc [] acc = Returned acc"
| "connections_in_round dc (i # ids) acc =
     (case map_of dc i of
        None \<Rightarrow> Raised KeyError
      | Some c \<Rightarrow> connections_in_round dc ids (AList.update i c acc))"

text \<open>The body of the dispatch loop (lines 101 to 103).\<close>

definition dispatch_one ::
  "(nat \<times> string) list \<Rightarrow> 'm \<Rightarrow> nat \<times> EdgeDeviceConnection \<Rightarrow>
   ('m, 'd, 'g) state \<Rightarrow> unit outcome \<times> ('m, 'd, 'g) state" where
  "dispatch_one itc model dc st =
     (case map_of itc (fst dc) of
        None \<Rightarrow> (Raised KeyError, st)
      | Some _ \<Rightarrow> (Returned (), send (con_handle (snd dc)) model st))"

text \<open>The body of the inner receive loop (lines 110 to 115).\<close>

definition receive_result ::
  "('m, 'd, 'g) collaborators \<Rightarrow> 'd CIFAR10 \<Rightarrow> nat \<Rightarrow>
   (nat \<times> 'm) list \<times> (nat \<times> real) list \<Rightarrow> ('m, 'd, 'g) state \<Rightarrow>
   ((nat \<times> 'm) list \<times> (nat \<times> real) list) outcome \<times> ('m, 'd, 'g) state" where
  "receive_result C ds h acc st =
     (case recv C h st of
        (Returned r, st') \<Rightarrow>
          (case map_of (class_to_idx ds) (res_name r) of
             None \<Rightarrow> (Raised KeyError, st')
           | Some device_id \<Rightarrow>
               (Returned (AList.update device_id (res_model r) (fst acc),
                          AList.update device_id (res_loss r) (snd acc)), st'))
      | (Raised e, st') \<Rightarrow> (Raised e, st')
      | (Blocked, st') \<Rightarrow> (Blocked, st'))"

fun receive_all ::
  "('m, 'd, 'g) collaborators \<Rightarrow> 'd CIFAR10 \<Rightarrow> nat list \<Rightarrow>
   (nat \<times> 'm) list \<times> (nat \<times> real) list \<Rightarrow> ('m, 'd, 'g) state \<Rightarrow>
   ((nat \<times> 'm) list \<times> (nat \<times> real) list) outcome \<times> ('m, 'd, 'g) state" where
  "receive_all C ds [] acc st = (Returned acc, st)"
| "receive_all C ds (h # hs) acc st =
     (case receive_result C ds h acc st of
        (Returned acc', st') \<Rightarrow> receive_all C ds hs acc' st'
      | (Raised e, st') \<Rightarrow> (Raised e, st')
      | (Blocked, st') \<Rightarrow> (Blocked, st'))"

text \<open>
  What \<^verbatim>\<open>wait\<close>, \<^verbatim>\<open>recv\<close> and the receive loop do to the schedule and to the
  queues; the collecting loop below terminates because each of its iterations either uses
  up schedule or takes a message out of a pipe of the round.
\<close>

lemma wait_Returned:
  "wait C hs st = (Returned ready, st') \<Longrightarrow>
     ready = filter (\<lambda>h. to_server st' h \<noteq> []) hs \<and> ready \<noteq> [] \<and>
     (length (schedule st') < length (schedule st) \<or> st' = st)"
proof (induction C hs st rule: wait.induct)
  case (1 C hs st)
  show ?case
  proof (cases "filter (\<lambda>h. to_server st h \<noteq> []) hs \<noteq> []")
    case True
    with "1.prems" show ?thesis by (auto simp: wait.simps[of C hs st])
  next
    case False
    with "1.prems" obtain b bs where sch: "schedule st = b # bs"
      and w: "wait C hs (fold (device_step C) b (st\<lparr>schedule := bs\<rparr>)) = (Returned ready, st')"
      by (auto simp: wait.simps[of C hs st] split: list.splits)
    from "1.IH"[OF False sch w] show ?thesis by (auto simp: sch)
  qed
qed

lemma recv_Returned:
  assumes "recv C h st = (Returned r, st')"
  shows "length (schedule st') < length (schedule st) \<or>
         (schedule st' = schedule st \<and> to_server st h \<noteq> [] \<and>
          to_server st' = (to_server st)(h := tl (to_server st h)))"
proof -
  from assms obtain ready st1 rs where w: "wait C [h] st = (Returned ready, st1)"
    and q: "to_server st1 h = r # rs"
    and st': "st' = st1\<lparr>to_server := (to_server st1)(h := rs), trace := trace st1 @ [Recv h r]\<rparr>"
    by (auto simp: recv_def split: prod.splits outcome.splits list.splits)
  from wait_Returned[OF w] show ?thesis
    using q by (auto simp: st')
qed

lemma receive_result_Returned:
  assumes "receive_result C ds h acc st = (Returned acc', st')"
  shows "length (schedule st') < length (schedule st) \<or>
         (schedule st' = schedule st \<and> to_server st h \<noteq> [] \<and>
          to_server st' = (to_server st)(h := tl (to_server st h)))"
proof -
  from assms obtain r where "recv C h st = (Returned r, st')"
    by (auto simp: receive_result_def split: prod.splits outcome.splits option.splits)
  then show ?thesis by (rule recv_Returned)
qed

lemma receive_all_Returned:
  "receive_all C ds hs acc st = (Returned acc', st') \<Longrightarrow>
     length (schedule st') < length (schedule st) \<or>
     (schedule st' = schedule st \<and>
      (\<forall>x. length (to_server st' x) \<le> length (to_server st x)) \<and>
      (hs \<noteq> [] \<longrightarrow> length (to_server st' (hd hs)) < length (to_server st (hd hs))))"
proof (induction hs arbitrary: acc st)
  case Nil
  then show ?case by simp
next
  case (Cons h hs)
  from Cons.prems obtain acc1 st1 where
    r1: "receive_result C ds h acc st = (Returned acc1, st1)" and
    r2: "receive_all C ds hs acc1 st1 = (Returned acc', st')"
    by (auto split: prod.splits outcome.splits)
  note a = receive_result_Returned[OF r1] and b = Cons.IH[OF r2]
  show ?case
  proof (cases "length (schedule st') < length (schedule st)")
    case True
    then show ?thesis by simp
  next
    case False
    with a b have s1: "schedule st1 = schedule st" and ne: "to_server st h \<noteq> []"
      and q1: "to_server st1 = (to_server st)(h := tl (to_server st h))"
      and s2: "schedule st' = schedule st1"
      and le: "\<forall>x. length (to_server st' x) \<le> length (to_server st1 x)"
      by auto
    have "length (to_server st1 x) \<le> length (to_server st x)" for x
      by (simp add: q1)
    moreover have "length (to_server st1 h) < length (to_server st h)"
      using ne by (simp add: q1)
    ultimately show ?thesis
      using le s1 s2 by (auto intro: le_less_trans order_trans)
  qed
qed

text \<open>The collecting loop (lines 107 to 115).\<close>

function collect ::
  "('m, 'd, 'g) collaborators \<Rightarrow> 'd CIFAR10 \<Rightarrow> (nat \<times> EdgeDeviceConnection) list \<Rightarrow>
   (nat \<times> 'm) list \<times> (nat \<times> real) list \<Rightarrow> ('m, 'd, 'g) state \<Rightarrow>
   ((nat \<times> 'm) list \<times> (nat \<times> real) list) outcome \<times> ('m, 'd, 'g) state" where
  "collect C ds in_round acc st =
     (if length (snd acc) = length in_round then (Returned acc, st)
      else
        (case wait C (map (\<lambda>c. con_handle (snd c)) in_round) st of
           (Returned ready, st1) \<Rightarrow>
             (case receive_all C ds ready acc st1 of
                (Returned acc', st2) \<Rightarrow> collect C ds in_round acc' st2
              | (Raised e, st2) \<Rightarrow> (Raised e, st2)
              | (Blocked, st2) \<Rightarrow> (Blocked, st2))
         | (Raised e, st1) \<Rightarrow> (Raised e, st1)
         | (Blocked, st1) \<Rightarrow> (Blocked, st1)))"
  by pat_completeness auto

termination collect
proof (relation "measures [\<lambda>(C, ds, in_round, acc, st). length (schedule st),
    \<lambda>(C, ds, in_round, acc, st).
       (\<Sum>h \<in> set (map (\<lambda>c. con_handle (snd c)) in_round). length (to_server st h))]",
    goal_cases)
  case 1
  show ?case by simp
next
  case (2 C ds in_round acc st x st1 ready y st2 acc')
  let ?hs = "map (\<lambda>c. con_handle (snd c)) in_round"
  from 2 have w: "wait C ?hs st = (Returned ready, st1)"
    and r: "receive_all C ds ready acc st1 = (Returned acc', st2)"
    by simp_all
  from wait_Returned[OF w] have ready: "ready \<noteq> []" "set ready \<subseteq> set ?hs"
    and w': "length (schedule st1) < length (schedule st) \<or> st1 = st"
    by auto
  from receive_all_Returned[OF r] ready
  have r': "length (schedule st2) < length (schedule st1) \<or>
      (schedule st2 = schedule st1 \<and>
       (\<forall>x. length (to_server st2 x) \<le> length (to_server st1 x)) \<and>
       length (to_server st2 (hd ready)) < length (to_server st1 (hd ready)))"
    by simp
  show ?case
  proof (cases "length (schedule st2) < length (schedule st)")
    case True
    then show ?thesis by simp
  next
    case False
    with w' r' have eq: "st1 = st" "schedule st2 = schedule st"
      and le: "\<forall>x. length (to_server st2 x) \<le> length (to_server st x)"
      and lt: "length (to_server st2 (hd ready)) < length (to_server st (hd ready))"
      by auto
    have hin: "hd ready \<in> set ?hs" using ready by (cases ready) auto
    have "(\<Sum>h \<in> set ?hs. length (to_server st2 h)) < (\<Sum>h \<in> set ?hs. length (to_server st h))"
    proof (rule sum_strict_mono_ex1)
      show "finite (set ?hs)" by (rule finite_set)
      show "\<forall>x\<in>set ?hs. length (to_server st2 x) \<le> length (to_server st x)"
        using le by blast
      show "\<exists>a\<in>set ?hs. length (to_server st2 a) < length (to_server st a)"
        using hin lt by blast
    qed
    then show ?thesis using eq by simp
  qed
qed

declare collect.simps [simp del]

text \<open>One round (the body of the loop over \<^verbatim>\<open>i_epoch\<close>, lines 92 to 121).\<close>

definition run_round ::
  "('m, 'd, 'g) collaborators \<Rightarrow> 'd CIFAR10 \<Rightarrow> nat \<Rightarrow> 'm \<Rightarrow> ('m, 'd, 'g) state \<Rightarrow>
   'm outcome \<times> ('m, 'd, 'g) state" where
  "run_round C ds i_epoch model st =
     (case select_users C (length (classes ds)) st of
        (Raised e, st1) \<Rightarrow> (Raised e, st1)
      | (Blocked, st1) \<Rightarrow> (Blocked, st1)
      | (Returned users_in_round_ids, st1) \<Rightarrow>
          (case connections_in_round (device_connections st1) users_in_round_ids [] of
             Raised e \<Rightarrow> (Raised e, st1)
           | Blocked \<Rightarrow> (Blocked, st1)
           | Returned in_round \<Rightarrow>
               (case for_each (dispatch_one (idx_to_class ds) model) in_round st1 of
                  (Raised e, st2) \<Rightarrow> (Raised e, st2)
                | (Blocked, st2) \<Rightarrow> (Blocked, st2)
                | (Returned _, st2) \<Rightarrow>
                    (case collect C ds in_round ([], []) st2 of
                       (Raised e, st3) \<Rightarrow> (Raised e, st3)
                     | (Blocked, st3) \<Rightarrow> (Blocked, st3)
                     | (Returned (local_models, local_losses), st3) \<Rightarrow>
                         (let st4 = st3\<lparr>trace := trace st3 @ [Aggregate (map snd local_models)]\<rparr> in
                          case federated_averaging C (map snd local_models) of
                            Inl e \<Rightarrow> (Raised e, st4)
                          | Inr model' \<Rightarrow>
                              if length local_losses = 0 then (Raised ZeroDivisionError, st4)
                              else
                                (Returned model',
                                 st4\<lparr>trace := trace st4 @
                                   [Report i_epoch
                                      (sum_list (map snd local_losses) /
                                       real (length local_losses))]\<rparr>))))))"

text \<open>\<^verbatim>\<open>for i_epoch in range(settings.num_global_epochs)\<close>: the model is carried from round to round.\<close>

fun run_rounds ::
  "('m, 'd, 'g) collaborators \<Rightarrow> 'd CIFAR10 \<Rightarrow> nat list \<Rightarrow> 'm \<Rightarrow> ('m, 'd, 'g) state \<Rightarrow>
   'm outcome \<times> ('m, 'd, 'g) state" where
  "run_rounds C ds [] model st = (Returned model, st)"
| "run_rounds C ds (i_epoch # rest) model st =
     (case run_round C ds i_epoch model st of
        (Returned model', st') \<Rightarrow> run_rounds C ds rest model' st'
      | (Raised e, st') \<Rightarrow> (Raised e, st')
      | (Blocked, st') \<Rightarrow> (Blocked, st'))"

text \<open>
  The body of the shutdown loop (lines 123 to 125): \<^verbatim>\<open>terminate()\<close> is called on the
  process, which from then on is marked as signalled.
\<close>

definition terminate_one ::
  "(nat \<times> string) list \<Rightarrow> nat \<times> EdgeDeviceConnection \<Rightarrow>
   ('m, 'd, 'g) state \<Rightarrow> unit outcome \<times> ('m, 'd, 'g) state" where
  "terminate_one itc dc st =
     (case map_of itc (fst dc) of
        None \<Rightarrow> (Raised KeyError, st)
      | Some _ \<Rightarrow>
          (Returned (),
           st\<lparr>processes := (processes st)[con_process (snd dc) :=
                 (processes st ! con_process (snd dc))\<lparr>dev_state := Signalled\<rparr>],
              trace := trace st @ [Terminate (con_process (snd dc))]\<rparr>))"

text \<open>The locals \<^verbatim>\<open>settings_edge_device\<close> and \<^verbatim>\<open>subsets\<close> (lines 68 to 77).\<close>

definition settings_edge_device :: "Settings \<Rightarrow> EdgeDeviceSettings" where
  "settings_edge_device settings =
     \<lparr>epochs = num_local_epochs settings, batch_size = num_local_batch settings,
      edge_learning_rate = learning_rate settings, edge_device = device settings\<rparr>"

definition subsets ::
  "('m, 'd, 'g) collaborators \<Rightarrow> 'd CIFAR10 \<Rightarrow> Settings \<Rightarrow> 'd CIFAR10 list" where
  "subsets C ds settings =
     (if iid settings then split_dataset_iid C ds (length (classes ds))
      else split_dataset_non_iid C ds)"

text \<open>The set-up loop (lines 79 to 89) and the shutdown loop (lines 123 to 125).\<close>

definition start_devices ::
  "('m, 'd, 'g) collaborators \<Rightarrow> 'd CIFAR10 \<Rightarrow> Settings \<Rightarrow> ('m, 'd, 'g) state \<Rightarrow>
   unit outcome \<times> ('m, 'd, 'g) state" where
  "start_devices C ds settings st =
     for_each (start_device ds (subsets C ds settings) (settings_edge_device settings))
       (classes ds) (st\<lparr>device_connections := []\<rparr>)"

definition terminate_devices ::
  "'d CIFAR10 \<Rightarrow> ('m, 'd, 'g) state \<Rightarrow> unit outcome \<times> ('m, 'd, 'g) state" where
  "terminate_devices ds st =
     for_each (terminate_one (idx_to_class ds)) (device_connections st) st"

definition train_federated ::
  "('m, 'd, 'g) collaborators \<Rightarrow> 'm \<Rightarrow> 'd CIFAR10 \<Rightarrow> Settings \<Rightarrow> ('m, 'd, 'g) state \<Rightarrow>
   'm outcome \<times> ('m, 'd, 'g) state" where
  "train_federated C model ds settings st =
     (case start_devices C ds settings st of
        (Raised e, st1) \<Rightarrow> (Raised e, st1)
      | (Blocked, st1) \<Rightarrow> (Blocked, st1)
      | (Returned _, st1) \<Rightarrow>
          (case run_rounds C ds [0..<nat (num_global_epochs settings)] model st1 of
             (Raised e, st2) \<Rightarrow> (Raised e, st2)
           | (Blocked, st2) \<Rightarrow> (Blocked, st2)
           | (Returned model', st2) \<Rightarrow>
               (case terminate_devices ds st2 of
                  (Raised e, st3) \<Rightarrow> (Raised e, st3)
                | (Blocked, st3) \<Rightarrow> (Blocked, st3)
                | (Returned _, st3) \<Rightarrow> (Returned model', st3))))"


section \<open>Well-formed inputs and the expected behaviour\<close>

text \<open>
  torchvision builds \<^verbatim>\<open>class_to_idx\<close> by enumerating \<^verbatim>\<open>classes\<close>: the class names are
  distinct and the name at position \<open>i\<close> is mapped to \<open>i\<close>.
\<close>

definition wf_dataset :: "'d CIFAR10 \<Rightarrow> bool" where
  "wf_dataset ds \<longleftrightarrow>
     distinct (classes ds) \<and>
     map (map_of (class_to_idx ds)) (classes ds) = map Some [0..<length (classes ds)]"

text \<open>The split returns at least one partition per class.\<close>

definition enough_subsets ::
  "('m, 'd, 'g) collaborators \<Rightarrow> 'd CIFAR10 \<Rightarrow> Settings \<Rightarrow> bool" where
  "enough_subsets C ds settings \<longleftrightarrow> length (classes ds) \<le> length (subsets C ds settings)"

text \<open>The roster and the processes that the set-up loop is expected to build.\<close>

definition roster :: "nat \<Rightarrow> (nat \<times> EdgeDeviceConnection) list" where
  "roster n = map (\<lambda>i. (i, \<lparr>con_handle = i, con_process = i\<rparr>)) [0..<n]"

definition device_of ::
  "('m, 'd, 'g) collaborators \<Rightarrow> 'd CIFAR10 \<Rightarrow> Settings \<Rightarrow> pstate \<Rightarrow> nat \<Rightarrow> 'd EdgeDevice" where
  "device_of C ds settings ps i =
     \<lparr>dev_name = classes ds ! i, dev_handle = i, dev_dataset = subsets C ds settings ! i,
      dev_settings = settings_edge_device settings, dev_state = ps\<rparr>"

text \<open>The result that device \<open>i\<close> sends back for a model.\<close>

definition device_result ::
  "('m, 'd, 'g) collaborators \<Rightarrow> 'd CIFAR10 \<Rightarrow> Settings \<Rightarrow> 'm \<Rightarrow> nat \<Rightarrow> 'm EdgeDeviceResult" where
  "device_result C ds settings model i =
     (case local_update C (subsets C ds settings ! i) (settings_edge_device settings) model of
        (m', l) \<Rightarrow> \<lparr>res_name = classes ds ! i, res_model = m', res_loss = l\<rparr>)"

text \<open>
  The state between rounds: the roster and the processes are those of the set-up, every
  process runs and every pipe is empty in both directions.
\<close>

definition ready_state ::
  "('m, 'd, 'g) collaborators \<Rightarrow> 'd CIFAR10 \<Rightarrow> Settings \<Rightarrow> ('m, 'd, 'g) state \<Rightarrow> bool" where
  "ready_state C ds settings st \<longleftrightarrow>
     device_connections st = roster (length (classes ds)) \<and>
     processes st = map (device_of C ds settings Started) [0..<length (classes ds)] \<and>
     (\<forall>h. to_device st h = []) \<and> (\<forall>h. to_server st h = [])"

text \<open>The state after \<open>j\<close> iterations of the set-up loop.\<close>

definition booted ::
  "('m, 'd, 'g) collaborators \<Rightarrow> 'd CIFAR10 \<Rightarrow> Settings \<Rightarrow> ('m, 'd, 'g) state \<Rightarrow> nat \<Rightarrow>
   ('m, 'd, 'g) state" where
  "booted C ds settings st j =
     st\<lparr>pipes := j, processes := map (device_of C ds settings Started) [0..<j],
        device_connections := roster j, trace := trace st @ map Start [0..<j]\<rparr>"

text \<open>
  The state while the results of a round are collected: of the selected devices \<open>ids\<close>,
  those in \<open>js\<close> have been received from; each of the others either still has the
  model in its pipe or has its result in its pipe; every other pipe is empty.
\<close>

definition collecting ::
  "('m, 'd, 'g) collaborators \<Rightarrow> 'd CIFAR10 \<Rightarrow> Settings \<Rightarrow> 'm \<Rightarrow> nat list \<Rightarrow> nat list \<Rightarrow>
   ('m, 'd, 'g) state \<Rightarrow> bool" where
  "collecting C ds settings model ids js st \<longleftrightarrow>
     processes st = map (device_of C ds settings Started) [0..<length (classes ds)] \<and>
     device_connections st = roster (length (classes ds)) \<and>
     distinct ids \<and> set ids \<subseteq> {0..<length (classes ds)} \<and>
     distinct js \<and> set js \<subseteq> set ids \<and>
     (\<forall>h. if h \<in> set ids \<and> h \<notin> set js
          then (to_device st h = [model] \<and> to_server st h = []) \<or>
               (to_device st h = [] \<and> to_server st h = [device_result C ds settings model h])
          else to_device st h = [] \<and> to_server st h = [])"

text \<open>
  Between two states, whoever still has a model queued at the end had it all along and
  keeps whatever turn the schedule had for it.
\<close>

definition still_waiting :: "('m, 'd, 'g) state \<Rightarrow> ('m, 'd, 'g) state \<Rightarrow> bool" where
  "still_waiting st st' \<longleftrightarrow>
     (\<forall>h. to_device st' h \<noteq> [] \<longrightarrow>
        to_device st h \<noteq> [] \<and>
        (h \<in> set (concat (schedule st)) \<longrightarrow> h \<in> set (concat (schedule st'))))"

text \<open>Between two states, only devices in \<open>S\<close> have used their pipe ends.\<close>

definition only_devices ::
  "nat set \<Rightarrow> ('m, 'd, 'g) state \<Rightarrow> ('m, 'd, 'g) state \<Rightarrow> bool" where
  "only_devices S st st' \<longleftrightarrow>
     (\<exists>l. device_trace st' = device_trace st @ l \<and> (\<forall>e \<in> set l. event_device e \<in> S))"

text \<open>
  The dictionaries \<^verbatim>\<open>local_models\<close> and \<^verbatim>\<open>local_losses\<close> after the results of the
  devices \<open>js\<close> have been received in this order.
\<close>

definition received ::
  "('m, 'd, 'g) collaborators \<Rightarrow> 'd CIFAR10 \<Rightarrow> Settings \<Rightarrow> 'm \<Rightarrow> nat list \<Rightarrow>
   (nat \<times> 'm) list \<times> (nat \<times> real) list" where
  "received C ds settings model js =
     (map (\<lambda>j. (j, res_model (device_result C ds settings model j))) js,
      map (\<lambda>j. (j, res_loss (device_result C ds settings model j))) js)"

text \<open>The dictionary \<^verbatim>\<open>device_connections_in_round\<close> for a selection.\<close>

definition in_round_of :: "nat list \<Rightarrow> (nat \<times> EdgeDeviceConnection) list" where
  "in_round_of ids = map (\<lambda>i. (i, \<lparr>con_handle = i, con_process = i\<rparr>)) ids"

text \<open>
  The events of one completed round \<open>i_epoch\<close> played with \<open>model\<close>: the selection
  \<open>ids\<close>, one send of the model to each selected device in the order selected, one
  receive from each device of \<open>js\<close> in the order of arrival, the call of the aggregator
  on the received models, and the report of the mean of the received losses.
\<close>

definition round_events ::
  "('m, 'd, 'g) collaborators \<Rightarrow> 'd CIFAR10 \<Rightarrow> Settings \<Rightarrow> nat \<Rightarrow> 'm \<Rightarrow> nat list \<Rightarrow> nat list \<Rightarrow>
   'm event list" where
  "round_events C ds settings i_epoch model ids js =
     Select ids # map (\<lambda>h. Send h model) ids @
     map (\<lambda>h. Recv h (device_result C ds settings model h)) js @
     [Aggregate (map (\<lambda>h. res_model (device_result C ds settings model h)) js),
      Report i_epoch
        (sum_list (map (\<lambda>h. res_loss (device_result C ds settings model h)) js) /
         real (length js))]"

text \<open>The state after the selection \<open>ids\<close> has been drawn and the model sent to each.\<close>

definition dispatched :: "'m \<Rightarrow> nat list \<Rightarrow> 'g \<Rightarrow> ('m, 'd, 'g) state \<Rightarrow> ('m, 'd, 'g) state" where
  "dispatched model ids g' st =
     fold (\<lambda>h. send h model) ids (st\<lparr>np_random := g', trace := trace st @ [Select ids]\<rparr>)"

text \<open>
  The run up to the start of round \<open>i\<close>: the set-up loop and the rounds before \<open>i\<close>
  (\<^verbatim>\<open>train_federated\<close> up to that point).
\<close>

definition before_round ::
  "('m, 'd, 'g) collaborators \<Rightarrow> 'm \<Rightarrow> 'd CIFAR10 \<Rightarrow> Settings \<Rightarrow> ('m, 'd, 'g) state \<Rightarrow> nat \<Rightarrow>
   'm outcome \<times> ('m, 'd, 'g) state" where
  "before_round C model ds settings st i =
     (case start_devices C ds settings st of
        (Raised e, st1) \<Rightarrow> (Raised e, st1)
      | (Blocked, st1) \<Rightarrow> (Blocked, st1)
      | (Returned _, st1) \<Rightarrow> run_rounds C ds [0..<i] model st1)"

text \<open>The state after \<open>j\<close> iterations of the shutdown loop.\<close>

definition shut_down ::
  "('m, 'd, 'g) collaborators \<Rightarrow> 'd CIFAR10 \<Rightarrow> Settings \<Rightarrow> ('m, 'd, 'g) state \<Rightarrow> nat \<Rightarrow>
   ('m, 'd, 'g) state" where
  "shut_down C ds settings st j =
     st\<lparr>processes := map (device_of C ds settings Signalled) [0..<j] @
                       map (device_of C ds settings Started) [j..<length (classes ds)],
        trace := trace st @ map Terminate [0..<j]\<rparr>"

text \<open>
  An instance on which the definitions are run: three classes, a quorum of two, a model
  that is one number, an aggregator that takes the mean, a generator that counts, and a
  schedule on which the devices answer out of order.
\<close>

definition example_collaborators :: "(real, unit, nat) collaborators" where
  "example_collaborators =
     \<lparr>federated_averaging =
        (\<lambda>ms. if ms = [] then Inl AggregationError else Inr (sum_list ms / real (length ms))),
      split_dataset_iid = (\<lambda>ds n. replicate n ds),
      split_dataset_non_iid = (\<lambda>ds. replicate (length (classes ds)) ds),
      MAX_USERS_IN_ROUND = 2,
      rk_random = (\<lambda>g. (g, Suc g)),
      local_update = (\<lambda>d es m. (m + 1, 1 / 2)),
      CNNCifar10 = (\<lambda>seed. 0)\<rparr>"

definition example_dataset :: "unit CIFAR10" where
  "example_dataset =
     \<lparr>classes = [''cat'', ''dog'', ''owl''],
      class_to_idx = [(''cat'', 0), (''dog'', 1), (''owl'', 2)], samples = ()\<rparr>"

definition example_settings :: Settings where
  "example_settings =
     \<lparr>num_local_epochs = 1, num_local_batch = 1, learning_rate = 1, device = ''cpu'',
      iid = True, num_global_epochs = 2, seed = 0\<rparr>"

definition example_schedule :: "nat list list" where
  "example_schedule = [[2], [0], [], [1], [2], [0, 1, 2]]"

abbreviation example_start :: "(real, unit, nat) state" where
  "example_start \<equiv> initial_state 5 example_schedule"

text \<open>What the aggregator makes of the results that the devices \<open>js\<close> return for a model.\<close>

definition aggregate ::
  "('m, 'd, 'g) collaborators \<Rightarrow> 'd CIFAR10 \<Rightarrow> Settings \<Rightarrow> 'm \<Rightarrow> nat list \<Rightarrow> error + 'm" where
  "aggregate C ds settings model js =
     federated_averaging C (map (\<lambda>h. res_model (device_result C ds settings model h)) js)"

text \<open>
  The events of consecutive completed rounds, the first numbered \<open>i\<close> and started with
  \<open>model\<close>, given for each round the devices selected and the order in which their
  results arrived: every round after the first is played with the model that the
  aggregator returned in the round before it. \<open>rounds_model\<close> is the model after the
  last of them.
\<close>

fun rounds_events ::
  "('m, 'd, 'g) collaborators \<Rightarrow> 'd CIFAR10 \<Rightarrow> Settings \<Rightarrow> nat \<Rightarrow> 'm \<Rightarrow>
   (nat list \<times> nat list) list \<Rightarrow> 'm event list" where
  "rounds_events C ds settings i model [] = []"
| "rounds_events C ds settings i model (sel # rest) =
     round_events C ds settings i model (fst sel) (snd sel) @
     (case aggregate C ds settings model (snd sel) of
        Inl e \<Rightarrow> []
      | Inr model' \<Rightarrow> rounds_events C ds settings (Suc i) model' rest)"

fun rounds_model ::
  "('m, 'd, 'g) collaborators \<Rightarrow> 'd CIFAR10 \<Rightarrow> Settings \<Rightarrow> 'm \<Rightarrow>
   (nat list \<times> nat list) list \<Rightarrow> error + 'm" where
  "rounds_model C ds settings model [] = Inr model"
| "rounds_model C ds settings model (sel # rest) =
     (case aggregate C ds settings model (snd sel) of
        Inl e \<Rightarrow> Inl e
      | Inr model' \<Rightarrow> rounds_model C ds settings model' rest)"

text \<open>The results received and the messages sent, read off a trace.\<close>

fun recv_results :: "'m event list \<Rightarrow> 'm EdgeDeviceResult list" where
  "recv_results [] = []"
| "recv_results (Recv h r # evs) = r # recv_results evs"
| "recv_results (e # evs) = recv_results evs"

fun sent_to :: "'m event list \<Rightarrow> (nat \<times> 'm) list" where
  "sent_to [] = []"
| "sent_to (Send h m # evs) = (h, m) # sent_to evs"
| "sent_to (e # evs) = sent_to evs"

fun selections :: "'m event list \<Rightarrow> nat list list" where
  "selections [] = []"
| "selections (Select ids # evs) = ids # selections evs"
| "selections (e # evs) = selections evs"




section \<open>Properties of the selection\<close>

lemma shuffle_from_mset:
  "i < length x \<Longrightarrow> mset (fst (shuffle_from rk i x g)) = mset x"
proof (induction i arbitrary: x g)
  case 0
  show ?case by simp
next
  case (Suc i)
  obtain j g' where jg: "rk_interval rk (Suc i) g = (j, g')"
    by (cases "rk_interval rk (Suc i) g")
  have "j \<le> Suc i"
    using jg by (auto simp: rk_interval_def split: prod.splits) 
  hence jl: "j < length x" using Suc.prems by simp
  let ?y = "x[Suc i := x ! j, j := x ! Suc i]"
  have "mset ?y = mset x"
    using Suc.prems jl by (simp add: mset_swap)
  moreover have "mset (fst (shuffle_from rk i ?y g')) = mset ?y"
    using Suc.prems by (intro Suc.IH) simp
  ultimately show ?case by (simp add: jg)
qed

lemma permutation_mset: "mset (fst (permutation rk n g)) = mset [0..<n]"
proof (cases n)
  case 0
  then show ?thesis by (simp add: permutation_def)
next
  case (Suc m)
  then show ?thesis by (simp add: permutation_def shuffle_from_mset del: upt_Suc)
qed

lemma permutation_props:
  "distinct (fst (permutation rk n g))" "set (fst (permutation rk n g)) = {0..<n}"
  "length (fst (permutation rk n g)) = n"
proof -
  have m: "mset (fst (permutation rk n g)) = mset [0..<n]" by (rule permutation_mset)
  show "distinct (fst (permutation rk n g))"
    using m by (metis distinct_upt mset_eq_imp_distinct_iff)
  show "set (fst (permutation rk n g)) = {0..<n}"
    using m by (metis mset_eq_setD set_upt)
  show "length (fst (permutation rk n g)) = n"
    using m by (metis length_upt mset_eq_length minus_nat.diff_0)
qed

lemma choice_Returned:
  assumes "choice rk n k g = (Returned ids, g')"
  shows "length ids = nat k" "distinct ids" "set ids \<subseteq> {0..<n}" "0 \<le> k" "k \<le> int n"
proof -
  from assms have k: "0 \<le> k" "k \<le> int n"
    and ids: "ids = take (nat k) (fst (permutation rk n g))"
    by (auto simp: choice_def split: if_splits prod.splits)
  show "0 \<le> k" "k \<le> int n" by fact+
  show "length ids = nat k" using k by (simp add: ids permutation_props)
  show "distinct ids" by (simp add: ids permutation_props)
  show "set ids \<subseteq> {0..<n}"
    using set_take_subset[of "nat k" "fst (permutation rk n g)"]
    by (simp add: ids permutation_props)
qed

section \<open>The set-up loop\<close>

lemma update_fresh: "k \<notin> fst ` set al \<Longrightarrow> AList.update k v al = al @ [(k, v)]"
  by (induction al) auto

lemma roster_Suc:
  "AList.update j \<lparr>con_handle = j, con_process = j\<rparr> (roster j) = roster (Suc j)"
  by (subst update_fresh) (auto simp: roster_def)

lemma wf_dataset_lookup:
  "wf_dataset ds \<Longrightarrow> i < length (classes ds) \<Longrightarrow>
     map_of (class_to_idx ds) (classes ds ! i) = Some i"
proof -
  assume wf: "wf_dataset ds" and i: "i < length (classes ds)"
  have "map (map_of (class_to_idx ds)) (classes ds) ! i = map Some [0..<length (classes ds)] ! i"
    using wf by (simp add: wf_dataset_def)
  then show ?thesis using i by simp
qed

lemma start_device_booted:
  assumes wf: "wf_dataset ds" and en: "enough_subsets C ds settings"
    and j: "j < length (classes ds)"
  shows "start_device ds (subsets C ds settings) (settings_edge_device settings)
           (classes ds ! j) (booted C ds settings st j) =
         (Returned (), booted C ds settings st (Suc j))"
proof -
  have l: "map_of (class_to_idx ds) (classes ds ! j) = Some j"
    using wf j by (rule wf_dataset_lookup)
  have s: "\<not> length (subsets C ds settings) \<le> j"
    using en j by (simp add: enough_subsets_def)
  show ?thesis
    by (simp add: start_device_def l s booted_def Let_def roster_Suc device_of_def)
qed

lemma for_each_booted:
  assumes wf: "wf_dataset ds" and en: "enough_subsets C ds settings"
  shows "j \<le> length (classes ds) \<Longrightarrow>
     for_each (start_device ds (subsets C ds settings) (settings_edge_device settings))
       (drop j (classes ds)) (booted C ds settings st j) =
     (Returned (), booted C ds settings st (length (classes ds)))"
proof (induction "length (classes ds) - j" arbitrary: j)
  case 0
  then show ?case by simp
next
  case (Suc d)
  then have j: "j < length (classes ds)" by simp
  have dr: "drop j (classes ds) = classes ds ! j # drop (Suc j) (classes ds)"
    using j by (simp add: Cons_nth_drop_Suc)
  have "for_each (start_device ds (subsets C ds settings) (settings_edge_device settings))
          (drop (Suc j) (classes ds)) (booted C ds settings st (Suc j)) =
        (Returned (), booted C ds settings st (length (classes ds)))"
    using Suc j by (intro Suc.hyps(1)) simp_all
  then show ?case
    by (simp add: dr start_device_booted[OF wf en j])
qed

lemma start_devices_initial:
  assumes wf: "wf_dataset ds" and en: "enough_subsets C ds settings"
  shows "start_devices C ds settings (initial_state g sched) =
         (Returned (), booted C ds settings (initial_state g sched) (length (classes ds)))"
proof -
  have "(initial_state g sched)\<lparr>device_connections := []\<rparr> =
        booted C ds settings (initial_state g sched) 0"
    by (simp add: booted_def initial_state_def roster_def)
  then show ?thesis
    using for_each_booted[OF wf en, of 0 "initial_state g sched"]
    by (simp add: start_devices_def)
qed

lemma booted_ready:
  "ready_state C ds settings (booted C ds settings (initial_state g sched) (length (classes ds)))"
  by (simp add: ready_state_def booted_def initial_state_def)

lemma choice_succeeds:
  "0 \<le> k \<Longrightarrow> k \<le> int n \<Longrightarrow> \<exists>ids g'. choice rk n k g = (Returned ids, g')"
  by (auto simp: choice_def split: prod.splits)

section \<open>The collecting loop\<close>

lemma only_devices_refl: "only_devices S st st"
  by (simp add: only_devices_def)

lemma only_devices_same: "device_trace st' = device_trace st \<Longrightarrow> only_devices S st st'"
  by (simp add: only_devices_def)

lemma only_devices_trans:
  "only_devices S st st1 \<Longrightarrow> only_devices S st1 st2 \<Longrightarrow> only_devices S st st2"
  by (auto simp: only_devices_def)

lemma collecting_waiting:
  assumes "collecting C ds settings model ids js st" and "to_device st h \<noteq> []"
  shows "h \<in> set ids" "h \<notin> set js" "h < length (classes ds)"
    "to_device st h = [model]" "to_server st h = []"
proof -
  from assms(1) have q: "if h \<in> set ids \<and> h \<notin> set js
          then (to_device st h = [model] \<and> to_server st h = []) \<or>
               (to_device st h = [] \<and> to_server st h = [device_result C ds settings model h])
          else to_device st h = [] \<and> to_server st h = []"
    and sub: "set ids \<subseteq> {0..<length (classes ds)}"
    by (simp_all add: collecting_def)
  from q assms(2) show "h \<in> set ids" "h \<notin> set js"
    "to_device st h = [model]" "to_server st h = []"
    by (auto split: if_splits)
  with sub show "h < length (classes ds)" by auto
qed

lemma collecting_ready:
  assumes "collecting C ds settings model ids js st" and "to_server st h \<noteq> []"
  shows "h \<in> set ids" "h \<notin> set js" "h < length (classes ds)"
    "to_device st h = []" "to_server st h = [device_result C ds settings model h]"
proof -
  from assms(1) have q: "if h \<in> set ids \<and> h \<notin> set js
          then (to_device st h = [model] \<and> to_server st h = []) \<or>
               (to_device st h = [] \<and> to_server st h = [device_result C ds settings model h])
          else to_device st h = [] \<and> to_server st h = []"
    and sub: "set ids \<subseteq> {0..<length (classes ds)}"
    by (simp_all add: collecting_def)
  from q assms(2) show "h \<in> set ids" "h \<notin> set js"
    "to_device st h = []" "to_server st h = [device_result C ds settings model h]"
    by (auto split: if_splits)
  with sub show "h < length (classes ds)" by auto
qed

lemma device_step_idle:
  "pid < length (processes st) \<longrightarrow> to_device st (dev_handle (processes st ! pid)) = [] \<Longrightarrow>
     device_step C pid st = st"
  by (auto simp: device_step_def Let_def)

lemma device_step_collecting:
  assumes c: "collecting C ds settings model ids js st"
  shows "collecting C ds settings model ids js (device_step C pid st) \<and>
         trace (device_step C pid st) = trace st \<and>
         np_random (device_step C pid st) = np_random st \<and>
         pipes (device_step C pid st) = pipes st \<and>
         to_device (device_step C pid st) pid = [] \<and>
         only_devices (set ids) st (device_step C pid st) \<and>
         (\<forall>h. to_device (device_step C pid st) h \<noteq> [] \<longrightarrow> to_device st h \<noteq> [])"
proof (cases "to_device st pid = []")
  case True
  have p: "processes st = map (device_of C ds settings Started) [0..<length (classes ds)]"
    using c by (simp add: collecting_def)
  have "device_step C pid st = st"
    by (rule device_step_idle) (simp add: p device_of_def True)
  then show ?thesis using c True by (simp add: only_devices_refl)
next
  case False
  note w = collecting_waiting[OF c False]
  have p: "processes st = map (device_of C ds settings Started) [0..<length (classes ds)]"
    using c by (simp add: collecting_def)
  have eq: "device_step C pid st =
        st\<lparr>to_device := (to_device st)(pid := []),
           to_server := (to_server st)(pid := [device_result C ds settings model pid]),
           device_trace := device_trace st @
             [Received pid model, Sent pid (device_result C ds settings model pid)]\<rparr>"
    using w by (simp add: device_step_def p Let_def device_of_def device_result_def
        split: prod.splits)
  have "collecting C ds settings model ids js (device_step C pid st)"
    unfolding eq using c w by (simp add: collecting_def)
  moreover have "only_devices (set ids) st (device_step C pid st)"
    unfolding eq using w by (simp add: only_devices_def)
  ultimately show ?thesis by (simp add: eq)
qed

lemma batch_collecting:
  "collecting C ds settings model ids js st \<Longrightarrow>
     collecting C ds settings model ids js (fold (device_step C) b st) \<and>
     trace (fold (device_step C) b st) = trace st \<and>
     np_random (fold (device_step C) b st) = np_random st \<and>
     pipes (fold (device_step C) b st) = pipes st \<and>
     only_devices (set ids) st (fold (device_step C) b st) \<and>
     (\<forall>h. to_device (fold (device_step C) b st) h \<noteq> [] \<longrightarrow>
          to_device st h \<noteq> [] \<and> h \<notin> set b)"
proof (induction b arbitrary: st)
  case Nil
  then show ?case by (simp add: only_devices_refl)
next
  case (Cons p b)
  note s = device_step_collecting[OF Cons.prems, of p]
  from s have c1: "collecting C ds settings model ids js (device_step C p st)" by simp
  note f = Cons.IH[OF c1]
  have "to_device st h \<noteq> [] \<and> h \<notin> set (p # b)"
    if "to_device (fold (device_step C) (p # b) st) h \<noteq> []" for h
  proof -
    from that f have a: "to_device (device_step C p st) h \<noteq> []" "h \<notin> set b" by simp_all
    with s have "to_device st h \<noteq> []" "h \<noteq> p" by auto
    with a show ?thesis by simp
  qed
  moreover have "only_devices (set ids) st (fold (device_step C) (p # b) st)"
    using s f by (auto intro: only_devices_trans)
  ultimately show ?case using f s by simp
qed

lemma still_waiting_refl: "still_waiting st st"
  by (simp add: still_waiting_def)

lemma still_waiting_trans:
  "still_waiting st st1 \<Longrightarrow> still_waiting st1 st2 \<Longrightarrow> still_waiting st st2"
  by (simp add: still_waiting_def)

lemma wait_collecting:
  "collecting C ds settings model ids js st \<Longrightarrow> wait C hs st = (r, st') \<Longrightarrow>
     collecting C ds settings model ids js st' \<and> trace st' = trace st \<and>
     np_random st' = np_random st \<and> pipes st' = pipes st \<and> still_waiting st st' \<and>
     only_devices (set ids) st st' \<and>
     (case r of
        Returned ready \<Rightarrow> ready = filter (\<lambda>h. to_server st' h \<noteq> []) hs \<and> ready \<noteq> []
      | Raised e \<Rightarrow> False
      | Blocked \<Rightarrow> schedule st' = [] \<and> (\<forall>h \<in> set hs. to_server st' h = []))"
proof (induction C hs st rule: wait.induct)
  case (1 C hs st)
  show ?case
  proof (cases "filter (\<lambda>h. to_server st h \<noteq> []) hs \<noteq> []")
    case True
    with "1.prems" show ?thesis
      by (auto simp: wait.simps[of C hs st] still_waiting_refl only_devices_refl)
  next
    case False
    note nr = this
    show ?thesis
    proof (cases "schedule st")
      case Nil
      with nr "1.prems" show ?thesis
        by (auto simp: wait.simps[of C hs st] still_waiting_refl only_devices_refl
            filter_empty_conv)
    next
      case (Cons b bs)
      let ?st1 = "fold (device_step C) b (st\<lparr>schedule := bs\<rparr>)"
      have c0: "collecting C ds settings model ids js (st\<lparr>schedule := bs\<rparr>)"
        using "1.prems"(1) by (simp add: collecting_def)
      note b = batch_collecting[OF c0, of b]
      from "1.prems"(2) nr Cons have w: "wait C hs ?st1 = (r, st')"
        by (simp add: wait.simps[of C hs st])
      from b have c1: "collecting C ds settings model ids js ?st1" by simp
      note ih = "1.IH"[OF nr Cons c1 w]
      have "still_waiting st ?st1"
        using b by (auto simp: still_waiting_def Cons)
      with ih have "still_waiting st st'" by (blast intro: still_waiting_trans)
      moreover have "only_devices (set ids) (st\<lparr>schedule := bs\<rparr>) ?st1" using b by simp
      then have "only_devices (set ids) st ?st1" by (simp add: only_devices_def)
      with ih have "only_devices (set ids) st st'" by (blast intro: only_devices_trans)
      ultimately show ?thesis using ih b by simp
    qed
  qed
qed

lemma received_snoc:
  "h \<notin> set js \<Longrightarrow>
   (AList.update h (res_model (device_result C ds settings model h))
      (fst (received C ds settings model js)),
    AList.update h (res_loss (device_result C ds settings model h))
      (snd (received C ds settings model js))) =
   received C ds settings model (js @ [h])"
  by (simp add: received_def update_fresh image_image)

lemma res_name_device_result [simp]:
  "res_name (device_result C ds settings model h) = classes ds ! h"
  by (simp add: device_result_def split: prod.splits)

lemma receive_result_collecting:
  assumes wf: "wf_dataset ds" and c: "collecting C ds settings model ids js st"
    and rdy: "to_server st h \<noteq> []"
  shows "receive_result C ds h (received C ds settings model js) st =
           (Returned (received C ds settings model (js @ [h])),
            st\<lparr>to_server := (to_server st)(h := []),
               trace := trace st @ [Recv h (device_result C ds settings model h)]\<rparr>) \<and>
         collecting C ds settings model ids (js @ [h])
           (st\<lparr>to_server := (to_server st)(h := []),
               trace := trace st @ [Recv h (device_result C ds settings model h)]\<rparr>)"
proof -
  note r = collecting_ready[OF c rdy]
  have w: "wait C [h] st = (Returned [h], st)"
    using rdy by (simp add: wait.simps[of C "[h]" st])
  have rc: "recv C h st = (Returned (device_result C ds settings model h),
      st\<lparr>to_server := (to_server st)(h := []),
         trace := trace st @ [Recv h (device_result C ds settings model h)]\<rparr>)"
    by (simp add: recv_def w r)
  have l: "map_of (class_to_idx ds) (classes ds ! h) = Some h"
    using wf r(3) by (rule wf_dataset_lookup)
  have "receive_result C ds h (received C ds settings model js) st =
           (Returned (received C ds settings model (js @ [h])),
            st\<lparr>to_server := (to_server st)(h := []),
               trace := trace st @ [Recv h (device_result C ds settings model h)]\<rparr>)"
    by (simp add: receive_result_def rc l received_snoc[OF r(2)])
  moreover have "collecting C ds settings model ids (js @ [h])
           (st\<lparr>to_server := (to_server st)(h := []),
               trace := trace st @ [Recv h (device_result C ds settings model h)]\<rparr>)"
    using c r by (simp add: collecting_def)
  ultimately show ?thesis by simp
qed

lemma receive_all_collecting:
  assumes wf: "wf_dataset ds"
  shows "collecting C ds settings model ids js st \<Longrightarrow> distinct rdy \<Longrightarrow>
     \<forall>h \<in> set rdy. to_server st h \<noteq> [] \<Longrightarrow>
     \<exists>st'. receive_all C ds rdy (received C ds settings model js) st =
             (Returned (received C ds settings model (js @ rdy)), st') \<and>
           collecting C ds settings model ids (js @ rdy) st' \<and>
           trace st' = trace st @ map (\<lambda>h. Recv h (device_result C ds settings model h)) rdy \<and>
           schedule st' = schedule st \<and> np_random st' = np_random st \<and>
           pipes st' = pipes st \<and> to_device st' = to_device st \<and>
           device_trace st' = device_trace st"
proof (induction rdy arbitrary: js st)
  case Nil
  then show ?case by simp
next
  case (Cons h rdy)
  let ?st1 = "st\<lparr>to_server := (to_server st)(h := []),
               trace := trace st @ [Recv h (device_result C ds settings model h)]\<rparr>"
  from Cons.prems have rdy: "to_server st h \<noteq> []" by simp
  note r = receive_result_collecting[OF wf Cons.prems(1) rdy]
  from r have c1: "collecting C ds settings model ids (js @ [h]) ?st1" by simp
  have d: "distinct rdy" using Cons.prems by simp
  have q: "\<forall>x \<in> set rdy. to_server ?st1 x \<noteq> []"
    using Cons.prems by auto
  from Cons.IH[OF c1 d q] obtain st' where
    ra: "receive_all C ds rdy (received C ds settings model (js @ [h])) ?st1 =
             (Returned (received C ds settings model ((js @ [h]) @ rdy)), st')"
    and rest: "collecting C ds settings model ids ((js @ [h]) @ rdy) st'"
      "trace st' = trace ?st1 @ map (\<lambda>h. Recv h (device_result C ds settings model h)) rdy"
      "schedule st' = schedule ?st1" "np_random st' = np_random ?st1"
      "pipes st' = pipes ?st1" "to_device st' = to_device ?st1"
      "device_trace st' = device_trace ?st1"
    by blast
  have "receive_all C ds (h # rdy) (received C ds settings model js) st =
      (Returned (received C ds settings model (js @ h # rdy)), st')"
    using r ra by simp
  with rest show ?case by simp
qed

lemma in_round_of_handles [simp]:
  "map (\<lambda>c. con_handle (snd c)) (in_round_of ids) = ids"
  by (simp add: in_round_of_def comp_def)

lemma length_in_round_of [simp]: "length (in_round_of ids) = length ids"
  by (simp add: in_round_of_def)

lemma length_snd_received [simp]: "length (snd (received C ds settings model js)) = length js"
  by (simp add: received_def)

lemma collecting_all_reported:
  assumes "collecting C ds settings model ids js st"
  shows "length js = length ids \<longleftrightarrow> set js = set ids"
proof -
  from assms have d: "distinct ids" "distinct js" "set js \<subseteq> set ids"
    by (simp_all add: collecting_def)
  show ?thesis
  proof
    assume "length js = length ids"
    then have "card (set js) = card (set ids)" using d by (simp add: distinct_card)
    then show "set js = set ids" using d(3) by (simp add: card_subset_eq)
  next
    assume "set js = set ids"
    then have "card (set js) = card (set ids)" by simp
    then show "length js = length ids" using d by (simp add: distinct_card)
  qed
qed

lemma collect_collecting:
  "wf_dataset ds \<Longrightarrow>
     collecting C ds settings model ids js st \<Longrightarrow> in_round = in_round_of ids \<Longrightarrow>
     acc = received C ds settings model js \<Longrightarrow> collect C ds in_round acc st = (r, st') \<Longrightarrow>
     \<exists>ks. collecting C ds settings model ids (js @ ks) st' \<and>
       trace st' = trace st @ map (\<lambda>h. Recv h (device_result C ds settings model h)) ks \<and>
       np_random st' = np_random st \<and> pipes st' = pipes st \<and> still_waiting st st' \<and>
       only_devices (set ids) st st' \<and>
       ((r = Returned (received C ds settings model (js @ ks)) \<and> set (js @ ks) = set ids) \<or>
        (r = Blocked \<and> schedule st' = [] \<and> set (js @ ks) \<noteq> set ids \<and>
         (\<forall>h \<in> set ids. to_server st' h = [])))"
proof (induction C ds in_round acc st arbitrary: js rule: collect.induct)
  case (1 C ds in_round acc st)
  note wf = "1.prems"(1) and c = "1.prems"(2) and ir = "1.prems"(3)
    and acc = "1.prems"(4) and run = "1.prems"(5)
  show ?case
  proof (cases "length js = length ids")
    case True
    then have "set js = set ids" using collecting_all_reported[OF c] by simp
    moreover have "r = Returned acc" "st' = st"
      using run True by (subst (asm) collect.simps, simp add: ir acc)+
    ultimately show ?thesis
      using c acc by (intro exI[of _ "[]"]) (simp add: still_waiting_refl only_devices_refl)
  next
    case False
    then have ne: "length (snd acc) \<noteq> length in_round" by (simp add: ir acc)
    have sets: "set js \<noteq> set ids" using False collecting_all_reported[OF c] by simp
    obtain rw st1 where w: "wait C ids st = (rw, st1)" by (cases "wait C ids st")
    note wc = wait_collecting[OF c w]
    from wc have c1: "collecting C ds settings model ids js st1" by simp
    show ?thesis
    proof (cases rw)
      case (Raised e)
      with wc show ?thesis by simp
    next
      case Blocked
      then have "r = Blocked" "st' = st1"
        using run ne w by (subst (asm) collect.simps, simp add: ir)+
      then show ?thesis
        using wc Blocked sets by (intro exI[of _ "[]"]) simp
    next
      case (Returned ready)
      with wc have rd: "ready = filter (\<lambda>h. to_server st1 h \<noteq> []) ids" by simp
      have d: "distinct ready" using c by (simp add: rd collecting_def)
      have q: "\<forall>h \<in> set ready. to_server st1 h \<noteq> []" by (simp add: rd)
      from receive_all_collecting[OF wf c1 d q] obtain st2 where
        ra: "receive_all C ds ready (received C ds settings model js) st1 =
             (Returned (received C ds settings model (js @ ready)), st2)"
        and c2: "collecting C ds settings model ids (js @ ready) st2"
        and t2: "trace st2 = trace st1 @ map (\<lambda>h. Recv h (device_result C ds settings model h)) ready"
        and o2: "schedule st2 = schedule st1" "np_random st2 = np_random st1"
          "pipes st2 = pipes st1" "to_device st2 = to_device st1"
        and dt2: "device_trace st2 = device_trace st1"
        by blast
      have run2: "collect C ds in_round (received C ds settings model (js @ ready)) st2 = (r, st')"
        using run ne w Returned ra
        by (subst (asm) collect.simps) (simp add: ir acc)
      have w': "(rw, st1) = wait C (map (\<lambda>c. con_handle (snd c)) in_round) st"
        using w by (simp add: ir)
      have ra': "(Returned (received C ds settings model (js @ ready)), st2) =
          receive_all C ds ready acc st1"
        using ra by (simp add: acc)
      from "1.IH"[OF ne w' Returned ra' refl wf c2 ir refl run2]
      obtain ks where k: "collecting C ds settings model ids ((js @ ready) @ ks) st'"
        "trace st' = trace st2 @ map (\<lambda>h. Recv h (device_result C ds settings model h)) ks"
        "np_random st' = np_random st2" "pipes st' = pipes st2" "still_waiting st2 st'"
        "only_devices (set ids) st2 st'"
        "(r = Returned (received C ds settings model ((js @ ready) @ ks)) \<and>
            set ((js @ ready) @ ks) = set ids) \<or>
         (r = Blocked \<and> schedule st' = [] \<and> set ((js @ ready) @ ks) \<noteq> set ids \<and>
          (\<forall>h \<in> set ids. to_server st' h = []))"
        by blast
      have "still_waiting st1 st2" by (simp add: still_waiting_def o2)
      with wc k(5) have "still_waiting st st'" by (blast intro: still_waiting_trans)
      moreover have "only_devices (set ids) st1 st2" using dt2 by (rule only_devices_same)
      with wc k(6) have "only_devices (set ids) st st'" by (blast intro: only_devices_trans)
      ultimately show ?thesis using k wc t2 o2
        by (intro exI[of _ "ready @ ks"]) simp
    qed
  qed
qed

lemma idx_to_class_keys:
  "fst ` set (fold (\<lambda>(k, v) acc. AList.update v k acc) xs acc) = snd ` set xs \<union> fst ` set acc"
proof (induction xs arbitrary: acc)
  case Nil
  show ?case by simp
next
  case (Cons x xs)
  obtain k v where x: "x = (k, v)" by (cases x)
  have "fst ` set (fold (\<lambda>(k, v) acc. AList.update v k acc) xs (AList.update v k acc)) =
        snd ` set xs \<union> fst ` set (AList.update v k acc)"
    by (rule Cons.IH)
  then show ?case by (simp add: x dom_update)
qed

lemma idx_to_class_lookup:
  assumes "wf_dataset ds" and "i < length (classes ds)"
  shows "\<exists>c. map_of (idx_to_class ds) i = Some c"
proof -
  have "map_of (class_to_idx ds) (classes ds ! i) = Some i"
    using assms by (rule wf_dataset_lookup)
  then have "(classes ds ! i, i) \<in> set (class_to_idx ds)" by (rule map_of_SomeD)
  then have "i \<in> snd ` set (class_to_idx ds)" by force
  then have "i \<in> fst ` set (idx_to_class ds)"
    by (simp add: idx_to_class_def idx_to_class_keys)
  then show ?thesis
    by (metis map_of_eq_None_iff not_Some_eq)
qed

lemma map_of_roster: "i < n \<Longrightarrow> map_of (roster n) i = Some \<lparr>con_handle = i, con_process = i\<rparr>"
  by (simp add: roster_def map_of_map_restrict restrict_map_def)

lemma connections_in_round_roster:
  "distinct (pre @ xs) \<Longrightarrow> set xs \<subseteq> {0..<n} \<Longrightarrow>
     connections_in_round (roster n) xs (in_round_of pre) = Returned (in_round_of (pre @ xs))"
proof (induction xs arbitrary: pre)
  case Nil
  then show ?case by simp
next
  case (Cons x xs)
  have u: "AList.update x \<lparr>con_handle = x, con_process = x\<rparr> (in_round_of pre) =
      in_round_of (pre @ [x])"
    using Cons.prems by (subst update_fresh) (auto simp: in_round_of_def)
  have "connections_in_round (roster n) xs (in_round_of (pre @ [x])) =
      Returned (in_round_of ((pre @ [x]) @ xs))"
    using Cons.prems by (intro Cons.IH) auto
  then show ?case using Cons.prems by (simp add: map_of_roster u)
qed

lemma dispatch_sends:
  assumes wf: "wf_dataset ds"
  shows "set xs \<subseteq> {0..<length (classes ds)} \<Longrightarrow>
     for_each (dispatch_one (idx_to_class ds) model) (in_round_of xs) st =
       (Returned (), fold (\<lambda>h. send h model) xs st)"
proof (induction xs arbitrary: st)
  case Nil
  then show ?case by (simp add: in_round_of_def)
next
  case (Cons x xs)
  then obtain c where "map_of (idx_to_class ds) x = Some c"
    using idx_to_class_lookup[OF wf, of x] by auto
  then have "dispatch_one (idx_to_class ds) model (x, \<lparr>con_handle = x, con_process = x\<rparr>) st =
      (Returned (), send x model st)"
    by (simp add: dispatch_one_def)
  moreover have "for_each (dispatch_one (idx_to_class ds) model) (in_round_of xs) (send x model st) =
       (Returned (), fold (\<lambda>h. send h model) xs (send x model st))"
    using Cons.prems by (intro Cons.IH) simp
  ultimately show ?case by (simp add: in_round_of_def)
qed

lemma fold_send:
  "distinct xs \<Longrightarrow>
     fold (\<lambda>h. send h model) xs st =
       st\<lparr>to_device := (\<lambda>h. if h \<in> set xs then to_device st h @ [model] else to_device st h),
          trace := trace st @ map (\<lambda>h. Send h model) xs\<rparr>"
proof (induction xs arbitrary: st)
  case Nil
  then show ?case by simp
next
  case (Cons x xs)
  let ?s = "send x model st"
  have "fold (\<lambda>h. send h model) (x # xs) st = fold (\<lambda>h. send h model) xs ?s"
    by simp
  also have "\<dots> = ?s\<lparr>to_device := (\<lambda>h. if h \<in> set xs then to_device ?s h @ [model]
                                            else to_device ?s h),
          trace := trace ?s @ map (\<lambda>h. Send h model) xs\<rparr>"
    using Cons.prems by (intro Cons.IH) simp
  also have "(\<lambda>h. if h \<in> set xs then to_device ?s h @ [model] else to_device ?s h) =
     (\<lambda>h. if h \<in> set (x # xs) then to_device st h @ [model] else to_device st h)"
    using Cons.prems by (auto simp: send_def fun_eq_iff)
  finally show ?case by (simp add: send_def)
qed

section \<open>One round\<close>

lemma in_round_of_Nil [simp]: "in_round_of [] = []"
  by (simp add: in_round_of_def)

lemma received_Nil [simp]: "received C ds settings model [] = ([], [])"
  by (simp add: received_def)

lemma run_round_unfold:
  assumes wf: "wf_dataset ds" and rs: "ready_state C ds settings st"
    and ch: "choice (rk_random C) (length (classes ds)) (MAX_USERS_IN_ROUND C) (np_random st) =
               (Returned ids, g')"
  shows "run_round C ds i_epoch model st =
     (case collect C ds (in_round_of ids) ([], []) (dispatched model ids g' st) of
        (Raised e, st3) \<Rightarrow> (Raised e, st3)
      | (Blocked, st3) \<Rightarrow> (Blocked, st3)
      | (Returned (local_models, local_losses), st3) \<Rightarrow>
          (let st4 = st3\<lparr>trace := trace st3 @ [Aggregate (map snd local_models)]\<rparr> in
           case federated_averaging C (map snd local_models) of
             Inl e \<Rightarrow> (Raised e, st4)
           | Inr model' \<Rightarrow>
               if length local_losses = 0 then (Raised ZeroDivisionError, st4)
               else
                 (Returned model',
                  st4\<lparr>trace := trace st4 @
                    [Report i_epoch
                       (sum_list (map snd local_losses) / real (length local_losses))]\<rparr>)))"
proof -
  note sel = choice_Returned[OF ch]
  have dc: "device_connections st = roster (length (classes ds))"
    using rs by (simp add: ready_state_def)
  have cr: "connections_in_round (roster (length (classes ds))) ids (in_round_of []) =
      Returned (in_round_of ([] @ ids))"
    using sel by (intro connections_in_round_roster) simp_all
  show ?thesis
    using cr
    by (simp add: run_round_def select_users_def ch dc dispatch_sends[OF wf sel(3)]
        dispatched_def)
qed

lemma dispatched_collecting:
  assumes rs: "ready_state C ds settings st"
    and ch: "choice (rk_random C) (length (classes ds)) (MAX_USERS_IN_ROUND C) (np_random st) =
               (Returned ids, g')"
  shows "collecting C ds settings model ids [] (dispatched model ids g' st)"
    and "trace (dispatched model ids g' st) = trace st @ Select ids # map (\<lambda>h. Send h model) ids"
    and "schedule (dispatched model ids g' st) = schedule st"
    and "np_random (dispatched model ids g' st) = g'"
    and "pipes (dispatched model ids g' st) = pipes st"
    and "device_trace (dispatched model ids g' st) = device_trace st"
proof -
  note sel = choice_Returned[OF ch]
  note eq = fold_send[OF sel(2), of model "st\<lparr>np_random := g', trace := trace st @ [Select ids]\<rparr>"]
  show "collecting C ds settings model ids [] (dispatched model ids g' st)"
    using rs sel by (simp add: dispatched_def eq collecting_def ready_state_def)
  show "trace (dispatched model ids g' st) = trace st @ Select ids # map (\<lambda>h. Send h model) ids"
    "schedule (dispatched model ids g' st) = schedule st"
    "np_random (dispatched model ids g' st) = g'"
    "pipes (dispatched model ids g' st) = pipes st"
    "device_trace (dispatched model ids g' st) = device_trace st"
    by (simp_all add: dispatched_def eq)
qed

lemma collecting_done_ready:
  assumes "collecting C ds settings model ids js st" and "set js = set ids"
  shows "ready_state C ds settings st"
  using assms by (simp add: collecting_def ready_state_def)

lemma ready_state_trace [simp]:
  "ready_state C ds settings (st\<lparr>trace := t\<rparr>) = ready_state C ds settings st"
  by (simp add: ready_state_def)

lemma run_round_collected:
  assumes wf: "wf_dataset ds" and rs: "ready_state C ds settings st"
    and ch: "choice (rk_random C) (length (classes ds)) (MAX_USERS_IN_ROUND C) (np_random st) =
               (Returned ids, g')"
  shows "\<exists>r3 st3 js.
     collect C ds (in_round_of ids) ([], []) (dispatched model ids g' st) = (r3, st3) \<and>
     collecting C ds settings model ids js st3 \<and>
     trace st3 = trace st @ Select ids # map (\<lambda>h. Send h model) ids @
       map (\<lambda>h. Recv h (device_result C ds settings model h)) js \<and>
     np_random st3 = g' \<and> pipes st3 = pipes st \<and>
     still_waiting (dispatched model ids g' st) st3 \<and> only_devices (set ids) st st3 \<and>
     ((r3 = Returned (received C ds settings model js) \<and> set js = set ids) \<or>
      (r3 = Blocked \<and> schedule st3 = [] \<and> set js \<noteq> set ids \<and>
       (\<forall>h \<in> set ids. to_server st3 h = [])))"
proof -
  note d = dispatched_collecting[OF rs ch, of model]
  obtain r3 st3 where col:
    "collect C ds (in_round_of ids) ([], []) (dispatched model ids g' st) = (r3, st3)"
    by (cases "collect C ds (in_round_of ids) ([], []) (dispatched model ids g' st)")
  from collect_collecting[OF wf d(1) refl _ col] obtain ks where
    k: "collecting C ds settings model ids ks st3"
      "trace st3 = trace (dispatched model ids g' st) @
         map (\<lambda>h. Recv h (device_result C ds settings model h)) ks"
      "np_random st3 = np_random (dispatched model ids g' st)"
      "pipes st3 = pipes (dispatched model ids g' st)"
      "still_waiting (dispatched model ids g' st) st3"
      "only_devices (set ids) (dispatched model ids g' st) st3"
      "(r3 = Returned (received C ds settings model ks) \<and> set ks = set ids) \<or>
       (r3 = Blocked \<and> schedule st3 = [] \<and> set ks \<noteq> set ids \<and>
         (\<forall>h \<in> set ids. to_server st3 h = []))"
    by auto
  have "only_devices (set ids) st st3"
    using k(6) d(6) by (simp add: only_devices_def)
  with col k d show ?thesis
    by (intro exI[of _ r3] exI[of _ st3] exI[of _ ks]) simp
qed

lemma run_round_Returned:
  assumes wf: "wf_dataset ds" and rs: "ready_state C ds settings st"
    and run: "run_round C ds i_epoch model st = (Returned model', st')"
  shows "\<exists>ids js g'.
     choice (rk_random C) (length (classes ds)) (MAX_USERS_IN_ROUND C) (np_random st) =
       (Returned ids, g') \<and>
     distinct js \<and> set js = set ids \<and> ids \<noteq> [] \<and>
     trace st' = trace st @ round_events C ds settings i_epoch model ids js \<and>
     federated_averaging C (map (\<lambda>h. res_model (device_result C ds settings model h)) js) =
       Inr model' \<and>
     ready_state C ds settings st' \<and> np_random st' = g' \<and> pipes st' = pipes st \<and>
     only_devices (set ids) st st'"
proof -
  obtain rc g' where ch0: "choice (rk_random C) (length (classes ds)) (MAX_USERS_IN_ROUND C)
      (np_random st) = (rc, g')"
    by (cases "choice (rk_random C) (length (classes ds)) (MAX_USERS_IN_ROUND C) (np_random st)")
  from run ch0 obtain ids where rc: "rc = Returned ids"
    by (cases rc) (simp_all add: run_round_def select_users_def)
  note ch = ch0[unfolded rc]
  from run_round_collected[OF wf rs ch, of model] obtain r3 st3 ks where
    col: "collect C ds (in_round_of ids) ([], []) (dispatched model ids g' st) = (r3, st3)"
    and k: "collecting C ds settings model ids ks st3"
      "trace st3 = trace st @ Select ids # map (\<lambda>h. Send h model) ids @
         map (\<lambda>h. Recv h (device_result C ds settings model h)) ks"
      "np_random st3 = g'" "pipes st3 = pipes st" "only_devices (set ids) st st3"
      "(r3 = Returned (received C ds settings model ks) \<and> set ks = set ids) \<or>
       (r3 = Blocked \<and> schedule st3 = [] \<and> set ks \<noteq> set ids \<and>
         (\<forall>h \<in> set ids. to_server st3 h = []))"
    by blast
  note u = run_round_unfold[OF wf rs ch, of i_epoch model, unfolded col]
  from run u k(6) have r3: "r3 = Returned (received C ds settings model ks)" and ks: "set ks = set ids"
    by auto
  have dk: "distinct ks" using k(1) by (simp add: collecting_def)
  from run u r3 have
    fa: "federated_averaging C (map (\<lambda>h. res_model (device_result C ds settings model h)) ks) = Inr model'"
    and ne: "ks \<noteq> []"
    and st': "st' = st3\<lparr>trace := trace st3 @
        [Aggregate (map (\<lambda>h. res_model (device_result C ds settings model h)) ks),
         Report i_epoch (sum_list (map (\<lambda>h. res_loss (device_result C ds settings model h)) ks) /
           real (length ks))]\<rparr>"
    by (auto simp: received_def Let_def comp_def split: sum.splits if_splits)
  have "ids \<noteq> []" using ne ks by auto
  moreover have "ready_state C ds settings st'"
    using collecting_done_ready[OF k(1) ks] by (simp add: st')
  moreover have "trace st' = trace st @ round_events C ds settings i_epoch model ids ks"
    by (simp add: st' k(2) round_events_def)
  moreover have "only_devices (set ids) st st'"
    using k(5) by (simp add: st' only_devices_def)
  ultimately show ?thesis
    using ch dk ks fa k by (intro exI[of _ ids] exI[of _ ks] exI[of _ g']) (simp add: st')
qed

lemma run_rounds_ready:
  assumes wf: "wf_dataset ds"
  shows "ready_state C ds settings st \<Longrightarrow> run_rounds C ds is model st = (Returned model', st') \<Longrightarrow>
     ready_state C ds settings st'"
proof (induction "is" arbitrary: model st)
  case Nil
  then show ?case by simp
next
  case (Cons i "is")
  from Cons.prems(2) obtain m1 st1 where
    r1: "run_round C ds i model st = (Returned m1, st1)" and
    r2: "run_rounds C ds is m1 st1 = (Returned model', st')"
    by (auto split: prod.splits outcome.splits)
  from run_round_Returned[OF wf Cons.prems(1) r1] have "ready_state C ds settings st1" by blast
  from Cons.IH[OF this r2] show ?case .
qed

section \<open>The rounds of a run and the shutdown loop\<close>



lemma train_federated_before_round:
  "train_federated C model ds settings st =
     (case before_round C model ds settings st (nat (num_global_epochs settings)) of
        (Raised e, st2) \<Rightarrow> (Raised e, st2)
      | (Blocked, st2) \<Rightarrow> (Blocked, st2)
      | (Returned model', st2) \<Rightarrow>
          (case terminate_devices ds st2 of
             (Raised e, st3) \<Rightarrow> (Raised e, st3)
           | (Blocked, st3) \<Rightarrow> (Blocked, st3)
           | (Returned _, st3) \<Rightarrow> (Returned model', st3)))"
  by (auto simp: train_federated_def before_round_def split: prod.splits outcome.splits)

lemma before_round_ready:
  assumes wf: "wf_dataset ds" and en: "enough_subsets C ds settings"
    and b: "before_round C model0 ds settings (initial_state g sched) i = (Returned model, st)"
  shows "ready_state C ds settings st"
proof -
  from b have "run_rounds C ds [0..<i] model0
      (booted C ds settings (initial_state g sched) (length (classes ds))) = (Returned model, st)"
    by (simp add: before_round_def start_devices_initial[OF wf en])
  with booted_ready show ?thesis by (rule run_rounds_ready[OF wf])
qed

lemma shut_down_0:
  "ready_state C ds settings st \<Longrightarrow> shut_down C ds settings st 0 = st"
  by (simp add: shut_down_def ready_state_def)

lemma terminate_one_shut_down:
  assumes wf: "wf_dataset ds" and j: "j < length (classes ds)"
  shows "terminate_one (idx_to_class ds) (j, \<lparr>con_handle = j, con_process = j\<rparr>)
           (shut_down C ds settings st j) =
         (Returned (), shut_down C ds settings st (Suc j))"
proof -
  obtain c where l: "map_of (idx_to_class ds) j = Some c"
    using idx_to_class_lookup[OF wf j] by blast
  have u: "[j..<length (classes ds)] = j # [Suc j..<length (classes ds)]"
    using j by (simp add: upt_conv_Cons)
  have "(map (device_of C ds settings Signalled) [0..<j] @
         map (device_of C ds settings Started) [j..<length (classes ds)])
          [j := ((map (device_of C ds settings Signalled) [0..<j] @
         map (device_of C ds settings Started) [j..<length (classes ds)]) ! j)
             \<lparr>dev_state := Signalled\<rparr>] =
        map (device_of C ds settings Signalled) [0..<Suc j] @
         map (device_of C ds settings Started) [Suc j..<length (classes ds)]"
    by (simp add: u list_update_append nth_append device_of_def)
  then show ?thesis
    by (simp add: terminate_one_def l shut_down_def)
qed

lemma for_each_shut_down:
  assumes wf: "wf_dataset ds"
  shows "j \<le> length (classes ds) \<Longrightarrow>
     for_each (terminate_one (idx_to_class ds)) (drop j (roster (length (classes ds))))
       (shut_down C ds settings st j) =
     (Returned (), shut_down C ds settings st (length (classes ds)))"
proof (induction "length (classes ds) - j" arbitrary: j)
  case 0
  then show ?case by (simp add: roster_def)
next
  case (Suc d)
  then have j: "j < length (classes ds)" by simp
  have dr: "drop j (roster (length (classes ds))) =
      (j, \<lparr>con_handle = j, con_process = j\<rparr>) # drop (Suc j) (roster (length (classes ds)))"
    using j by (simp add: roster_def Cons_nth_drop_Suc[symmetric])
  have "for_each (terminate_one (idx_to_class ds)) (drop (Suc j) (roster (length (classes ds))))
       (shut_down C ds settings st (Suc j)) =
     (Returned (), shut_down C ds settings st (length (classes ds)))"
    using Suc j by (intro Suc.hyps(1)) simp_all
  then show ?case
    by (simp add: dr terminate_one_shut_down[OF wf j])
qed

lemma terminate_devices_ready:
  assumes wf: "wf_dataset ds" and rs: "ready_state C ds settings st"
  shows "terminate_devices ds st =
         (Returned (), shut_down C ds settings st (length (classes ds)))"
proof -
  have "device_connections st = roster (length (classes ds))"
    using rs by (simp add: ready_state_def)
  then show ?thesis
    using for_each_shut_down[OF wf, of 0 C settings st]
    by (simp add: terminate_devices_def shut_down_0[OF rs])
qed

section \<open>The claims about the selection\<close>

lemma example_wf: "wf_dataset example_dataset"
  by code_simp

lemma example_enough: "enough_subsets example_collaborators example_dataset example_settings"
  by code_simp

lemma example_before_0:
  "before_round example_collaborators 0 example_dataset example_settings example_start 0 =
     (Returned 0, snd (start_devices example_collaborators example_dataset example_settings example_start))"
  by (simp add: before_round_def start_devices_initial[OF example_wf example_enough])

lemma roster_keys: "fst ` set (roster n) = {0..<n}"
  by (auto simp: roster_def image_iff)

text \<open>
  Claim C2. At the start of every round of a run, when the quorum size \<open>k\<close> satisfies
  \<open>1 \<le> k \<le> R\<close> for the roster size \<open>R\<close>, the selection returns exactly \<open>k\<close>
  identities, pairwise distinct (drawn without replacement), each a key of the roster.
\<close>

theorem selection_distinct_quorum:
  assumes wf: "wf_dataset ds" and en: "enough_subsets C ds settings"
    and k: "1 \<le> MAX_USERS_IN_ROUND C" "MAX_USERS_IN_ROUND C \<le> int (length (device_connections st))"
    and before: "before_round C model0 ds settings (initial_state g sched) i = (Returned model, st)"
  shows "\<exists>ids st1. select_users C (length (classes ds)) st = (Returned ids, st1) \<and>
           length ids = nat (MAX_USERS_IN_ROUND C) \<and> distinct ids \<and>
           set ids \<subseteq> fst ` set (device_connections st)"
proof -
  have rs: "ready_state C ds settings st" using wf en before by (rule before_round_ready)
  then have dc: "device_connections st = roster (length (classes ds))"
    by (simp add: ready_state_def)
  have len: "length (device_connections st) = length (classes ds)"
    by (simp add: dc roster_def)
  from k have "0 \<le> MAX_USERS_IN_ROUND C" "MAX_USERS_IN_ROUND C \<le> int (length (classes ds))"
    by (simp_all add: len)
  from choice_succeeds[OF this, of "rk_random C" "np_random st"] obtain ids g' where
    ch: "choice (rk_random C) (length (classes ds)) (MAX_USERS_IN_ROUND C) (np_random st) =
      (Returned ids, g')"
    by blast
  note sel = choice_Returned[OF ch]
  have "select_users C (length (classes ds)) st =
      (Returned ids, st\<lparr>np_random := g', trace := trace st @ [Select ids]\<rparr>)"
    by (simp add: select_users_def ch)
  with sel show ?thesis by (auto simp: dc roster_keys)
qed

theorem selection_distinct_quorum_witness:
  "\<exists>ids st1.
     select_users example_collaborators (length (classes example_dataset))
       (snd (start_devices example_collaborators example_dataset example_settings example_start)) =
       (Returned ids, st1) \<and>
     length ids = nat (MAX_USERS_IN_ROUND example_collaborators) \<and> distinct ids \<and>
     set ids \<subseteq> fst ` set (device_connections
       (snd (start_devices example_collaborators example_dataset example_settings example_start)))"
proof -
  have k: "1 \<le> MAX_USERS_IN_ROUND example_collaborators"
    "MAX_USERS_IN_ROUND example_collaborators \<le> int (length (device_connections
       (snd (start_devices example_collaborators example_dataset example_settings example_start))))"
    by code_simp+
  show ?thesis
    using selection_distinct_quorum[OF example_wf example_enough k
        example_before_0]
    by simp
qed

text \<open>
  Claim C3, as amended. The selection raises \<^verbatim>\<open>ValueError\<close> when the quorum size is
  negative or exceeds the number of devices, and the round then ends with that error in
  the state in which it began: nothing was sent, trained, received or aggregated. A
  quorum size of zero is not rejected: the selection is empty and the aggregator is
  called on the empty list, as the run of \<open>empty_quorum_counterexample\<close> shows.
\<close>

theorem selection_failure:
  assumes "MAX_USERS_IN_ROUND C < 0 \<or> int (length (classes ds)) < MAX_USERS_IN_ROUND C"
  shows "select_users C (length (classes ds)) st = (Raised ValueError, st) \<and>
         run_round C ds i_epoch model st = (Raised ValueError, st)"
  using assms by (auto simp: run_round_def select_users_def choice_def)

theorem selection_failure_witness:
  "select_users (example_collaborators\<lparr>MAX_USERS_IN_ROUND := 5\<rparr>) (length (classes example_dataset))
      example_start = (Raised ValueError, example_start) \<and>
   run_round (example_collaborators\<lparr>MAX_USERS_IN_ROUND := 5\<rparr>) example_dataset 0 0 example_start =
     (Raised ValueError, example_start)"
proof -
  have "MAX_USERS_IN_ROUND (example_collaborators\<lparr>MAX_USERS_IN_ROUND := 5\<rparr>) < 0 \<or>
      int (length (classes example_dataset)) < MAX_USERS_IN_ROUND (example_collaborators\<lparr>MAX_USERS_IN_ROUND := 5\<rparr>)"
    by (simp add: example_dataset_def)
  then show ?thesis by (rule selection_failure)
qed

theorem empty_quorum_counterexample:
  "fst (select_users (example_collaborators\<lparr>MAX_USERS_IN_ROUND := 0\<rparr>)
          (length (classes example_dataset))
          (snd (start_devices example_collaborators example_dataset example_settings example_start))) =
     Returned [] \<and>
   trace (snd (run_round (example_collaborators\<lparr>MAX_USERS_IN_ROUND := 0\<rparr>) example_dataset 0 0
          (snd (start_devices example_collaborators example_dataset example_settings example_start)))) =
     [Start 0, Start 1, Start 2, Select [], Aggregate []]"
  by code_simp

section \<open>The roster\<close>

lemma device_step_roster [simp]:
  "device_connections (device_step C pid st) = device_connections st"
  by (simp add: device_step_def Let_def split: list.splits prod.splits)

lemma fold_device_step_roster [simp]:
  "device_connections (fold (device_step C) b st) = device_connections st"
  by (induction b arbitrary: st) simp_all

lemma wait_roster: "device_connections (snd (wait C hs st)) = device_connections st"
proof (induction C hs st rule: wait.induct)
  case (1 C hs st)
  show ?case
  proof (cases "filter (\<lambda>h. to_server st h \<noteq> []) hs \<noteq> []")
    case True
    then show ?thesis by (simp add: wait.simps[of C hs st])
  next
    case False
    show ?thesis
    proof (cases "schedule st")
      case Nil
      with False show ?thesis by (simp add: wait.simps[of C hs st])
    next
      case (Cons b bs)
      with False "1.IH"[OF False Cons] show ?thesis by (simp add: wait.simps[of C hs st])
    qed
  qed
qed

lemma recv_roster: "device_connections (snd (recv C h st)) = device_connections st"
  using wait_roster[of C "[h]" st]
  by (auto simp: recv_def split: prod.splits outcome.splits list.splits)

lemma receive_result_roster:
  "device_connections (snd (receive_result C ds h acc st)) = device_connections st"
  using recv_roster[of C h st]
  by (auto simp: receive_result_def split: prod.splits outcome.splits option.splits)

lemma receive_all_roster:
  "device_connections (snd (receive_all C ds hs acc st)) = device_connections st"
proof (induction hs arbitrary: acc st)
  case Nil
  show ?case by simp
next
  case (Cons h hs)
  show ?case
    using receive_result_roster[of C ds h acc st] Cons.IH
    by (auto split: prod.splits outcome.splits)
qed

lemma collect_roster:
  "device_connections (snd (collect C ds in_round acc st)) = device_connections st"
proof (induction C ds in_round acc st rule: collect.induct)
  case (1 C ds in_round acc st)
  let ?hs = "map (\<lambda>c. con_handle (snd c)) in_round"
  show ?case
  proof (cases "length (snd acc) = length in_round")
    case True
    then show ?thesis by (subst collect.simps) simp
  next
    case False
    obtain rw st1 where w: "wait C ?hs st = (rw, st1)" by (cases "wait C ?hs st")
    have s1: "device_connections st1 = device_connections st"
      using wait_roster[of C ?hs st] w by simp
    show ?thesis
    proof (cases rw)
      case (Returned ready)
      obtain ra st2 where r: "receive_all C ds ready acc st1 = (ra, st2)"
        by (cases "receive_all C ds ready acc st1")
      have s2: "device_connections st2 = device_connections st1"
        using receive_all_roster[of C ds ready acc st1] r by simp
      show ?thesis
      proof (cases ra)
        case (Returned acc')
        from "1.IH"[OF False w[symmetric] \<open>rw = Returned ready\<close> r[symmetric] Returned]
        show ?thesis
          using False w \<open>rw = Returned ready\<close> r Returned s1 s2
          by (subst collect.simps) simp
      next
        case (Raised e)
        then show ?thesis
          using False w \<open>rw = Returned ready\<close> r s1 s2 by (subst collect.simps) simp
      next
        case Blocked
        then show ?thesis
          using False w \<open>rw = Returned ready\<close> r s1 s2 by (subst collect.simps) simp
      qed
    next
      case (Raised e)
      then show ?thesis using False w s1 by (subst collect.simps) simp
    next
      case Blocked
      then show ?thesis using False w s1 by (subst collect.simps) simp
    qed
  qed
qed

lemma for_each_roster:
  assumes "\<And>x st. device_connections (snd (f x st)) = device_connections st"
  shows "device_connections (snd (for_each f xs st)) = device_connections st"
proof (induction xs arbitrary: st)
  case Nil
  show ?case by simp
next
  case (Cons x xs)
  show ?case
    using assms[of x st] Cons.IH by (auto split: prod.splits outcome.splits)
qed

lemma dispatch_one_roster:
  "device_connections (snd (dispatch_one itc model dc st)) = device_connections st"
  by (simp add: dispatch_one_def send_def split: option.splits)

lemma terminate_one_roster:
  "device_connections (snd (terminate_one itc dc st)) = device_connections st"
  by (simp add: terminate_one_def split: option.splits)

lemma run_round_roster:
  "device_connections (snd (run_round C ds i_epoch model st)) = device_connections st"
proof -
  obtain r1 st1 where s1: "select_users C (length (classes ds)) st = (r1, st1)"
    by (cases "select_users C (length (classes ds)) st")
  have d1: "device_connections st1 = device_connections st"
    using s1 by (auto simp: select_users_def split: prod.splits outcome.splits)
  show ?thesis
  proof (cases r1)
    case (Returned ids)
    show ?thesis
    proof (cases "connections_in_round (device_connections st1) ids []")
      case (Returned in_round)
      obtain r2 st2 where s2:
        "for_each (dispatch_one (idx_to_class ds) model) in_round st1 = (r2, st2)"
        by (cases "for_each (dispatch_one (idx_to_class ds) model) in_round st1")
      have d2: "device_connections st2 = device_connections st1"
        using for_each_roster[where f = "dispatch_one (idx_to_class ds) model",
            OF dispatch_one_roster, of in_round st1] s2 by simp
      obtain r3 st3 where s3: "collect C ds in_round ([], []) st2 = (r3, st3)"
        by (cases "collect C ds in_round ([], []) st2")
      have d3: "device_connections st3 = device_connections st2"
        using collect_roster[of C ds in_round "([], [])" st2] s3 by simp
      show ?thesis
        using s1 \<open>r1 = Returned ids\<close> Returned s2 s3 d1 d2 d3
        by (simp add: run_round_def Let_def split: outcome.splits prod.splits sum.splits)
    next
      case (Raised e)
      then show ?thesis using s1 \<open>r1 = Returned ids\<close> d1 by (simp add: run_round_def)
    next
      case Blocked
      then show ?thesis using s1 \<open>r1 = Returned ids\<close> d1 by (simp add: run_round_def)
    qed
  next
    case (Raised e)
    then show ?thesis using s1 d1 by (simp add: run_round_def)
  next
    case Blocked
    then show ?thesis using s1 d1 by (simp add: run_round_def)
  qed
qed

lemma run_rounds_roster:
  "device_connections (snd (run_rounds C ds is model st)) = device_connections st"
proof (induction "is" arbitrary: model st)
  case Nil
  show ?case by simp
next
  case (Cons i "is")
  show ?case
    using run_round_roster[of C ds i model st] Cons.IH
    by (auto split: prod.splits outcome.splits)
qed

lemma before_round_roster:
  assumes wf: "wf_dataset ds" and en: "enough_subsets C ds settings"
  shows "device_connections (snd (before_round C model ds settings (initial_state g sched) i)) =
         roster (length (classes ds))"
  using run_rounds_roster[of C ds "[0..<i]" model
      "booted C ds settings (initial_state g sched) (length (classes ds))"]
  by (simp add: before_round_def start_devices_initial[OF wf en] booted_def)

lemma terminate_devices_roster:
  "device_connections (snd (terminate_devices ds st)) = device_connections st"
  unfolding terminate_devices_def
  by (rule for_each_roster) (rule terminate_one_roster)

lemma train_federated_roster:
  assumes wf: "wf_dataset ds" and en: "enough_subsets C ds settings"
  shows "device_connections (snd (train_federated C model ds settings (initial_state g sched))) =
         roster (length (classes ds))"
proof -
  let ?b = "before_round C model ds settings (initial_state g sched) (nat (num_global_epochs settings))"
  show ?thesis
    using before_round_roster[OF wf en, of model g sched "nat (num_global_epochs settings)"]
      terminate_devices_roster[of ds "snd ?b"]
    by (auto simp: train_federated_before_round split: prod.splits outcome.splits)
qed

text \<open>
  Claim C8. Before the first round the coordinator creates one pipe and one process per
  dataset class, in the order of the classes: process \<open>i\<close> carries the name of class
  \<open>i\<close>, partition \<open>i\<close> of the split and pipe \<open>i\<close>, and is started; the roster maps
  \<open>i\<close> to that pipe and process. The roster is the same at the start of every round
  and when \<^verbatim>\<open>train_federated\<close> ends, however it ends.
\<close>

theorem one_device_per_class:
  assumes wf: "wf_dataset ds" and en: "enough_subsets C ds settings"
  shows "\<exists>st0. start_devices C ds settings (initial_state g sched) = (Returned (), st0) \<and>
     length (processes st0) = length (classes ds) \<and> pipes st0 = length (classes ds) \<and>
     (\<forall>i < length (classes ds).
        dev_name (processes st0 ! i) = classes ds ! i \<and>
        dev_dataset (processes st0 ! i) = subsets C ds settings ! i \<and>
        dev_handle (processes st0 ! i) = i \<and>
        dev_state (processes st0 ! i) = Started \<and>
        map_of (device_connections st0) i = Some \<lparr>con_handle = i, con_process = i\<rparr>) \<and>
     map fst (device_connections st0) = [0..<length (classes ds)] \<and>
     trace st0 = map Start [0..<length (classes ds)] \<and>
     (\<forall>i. device_connections
            (snd (before_round C model ds settings (initial_state g sched) i)) =
          device_connections st0) \<and>
     device_connections (snd (train_federated C model ds settings (initial_state g sched))) =
       device_connections st0"
proof -
  let ?st0 = "booted C ds settings (initial_state g sched) (length (classes ds))"
  have "start_devices C ds settings (initial_state g sched) = (Returned (), ?st0)"
    using wf en by (rule start_devices_initial)
  moreover have "length (processes ?st0) = length (classes ds)" "pipes ?st0 = length (classes ds)"
    "trace ?st0 = map Start [0..<length (classes ds)]"
    "map fst (device_connections ?st0) = [0..<length (classes ds)]"
    by (simp_all add: booted_def initial_state_def roster_def comp_def)
  moreover have "\<forall>i < length (classes ds).
        dev_name (processes ?st0 ! i) = classes ds ! i \<and>
        dev_dataset (processes ?st0 ! i) = subsets C ds settings ! i \<and>
        dev_handle (processes ?st0 ! i) = i \<and>
        dev_state (processes ?st0 ! i) = Started \<and>
        map_of (device_connections ?st0) i = Some \<lparr>con_handle = i, con_process = i\<rparr>"
    by (simp add: booted_def device_of_def map_of_roster)
  moreover have "device_connections ?st0 = roster (length (classes ds))"
    by (simp add: booted_def)
  ultimately show ?thesis
    using before_round_roster[OF wf en, of model g sched] train_federated_roster[OF wf en, of model g sched]
    by (intro exI[of _ ?st0]) simp
qed

theorem one_device_per_class_witness:
  "\<exists>st0. start_devices example_collaborators example_dataset example_settings example_start =
       (Returned (), st0) \<and>
     length (processes st0) = length (classes example_dataset) \<and>
     pipes st0 = length (classes example_dataset) \<and>
     (\<forall>i < length (classes example_dataset).
        dev_name (processes st0 ! i) = classes example_dataset ! i \<and>
        dev_dataset (processes st0 ! i) =
          subsets example_collaborators example_dataset example_settings ! i \<and>
        dev_handle (processes st0 ! i) = i \<and>
        dev_state (processes st0 ! i) = Started \<and>
        map_of (device_connections st0) i = Some \<lparr>con_handle = i, con_process = i\<rparr>) \<and>
     map fst (device_connections st0) = [0..<length (classes example_dataset)] \<and>
     trace st0 = map Start [0..<length (classes example_dataset)] \<and>
     (\<forall>i. device_connections
            (snd (before_round example_collaborators 0 example_dataset example_settings
               example_start i)) =
          device_connections st0) \<and>
     device_connections
       (snd (train_federated example_collaborators 0 example_dataset example_settings
          example_start)) =
       device_connections st0"
  using one_device_per_class[OF example_wf example_enough] by blast

section \<open>The run as a whole\<close>

lemma run_rounds_events:
  assumes wf: "wf_dataset ds"
  shows "ready_state C ds settings st \<Longrightarrow>
     run_rounds C ds [i..<i + m] model st = (Returned model', st') \<Longrightarrow>
     \<exists>rounds. length rounds = m \<and>
       (\<forall>sel \<in> set rounds.
          length (fst sel) = nat (MAX_USERS_IN_ROUND C) \<and> distinct (fst sel) \<and>
          set (fst sel) \<subseteq> {0..<length (classes ds)} \<and>
          distinct (snd sel) \<and> set (snd sel) = set (fst sel)) \<and>
       trace st' = trace st @ rounds_events C ds settings i model rounds \<and>
       rounds_model C ds settings model rounds = Inr model'"
proof (induction m arbitrary: i model st)
  case 0
  then show ?case by simp
next
  case (Suc m)
  have u: "[i..<i + Suc m] = i # [Suc i..<Suc i + m]"
    by (simp add: upt_conv_Cons)
  from Suc.prems(2) obtain m1 st1 where
    r1: "run_round C ds i model st = (Returned m1, st1)" and
    r2: "run_rounds C ds [Suc i..<Suc i + m] m1 st1 = (Returned model', st')"
    unfolding u by (auto split: prod.splits outcome.splits)
  from run_round_Returned[OF wf Suc.prems(1) r1] obtain ids js g' where
    ch: "choice (rk_random C) (length (classes ds)) (MAX_USERS_IN_ROUND C) (np_random st) =
       (Returned ids, g')"
    and r: "distinct js" "set js = set ids"
      "trace st1 = trace st @ round_events C ds settings i model ids js"
      "aggregate C ds settings model js = Inr m1"
      "ready_state C ds settings st1"
    unfolding aggregate_def by blast
  note sel = choice_Returned[OF ch]
  from Suc.IH[OF r(5) r2] obtain rounds where
    rr: "length rounds = m"
      "\<forall>sel \<in> set rounds.
          length (fst sel) = nat (MAX_USERS_IN_ROUND C) \<and> distinct (fst sel) \<and>
          set (fst sel) \<subseteq> {0..<length (classes ds)} \<and>
          distinct (snd sel) \<and> set (snd sel) = set (fst sel)"
      "trace st' = trace st1 @ rounds_events C ds settings (Suc i) m1 rounds"
      "rounds_model C ds settings m1 rounds = Inr model'"
    by blast
  show ?case
    using rr r sel by (intro exI[of _ "(ids, js) # rounds"]) simp
qed

lemma round_events_kinds:
  assumes "e \<in> set (round_events C ds settings i model ids js)"
  shows "(\<exists>ids. e = Select ids) \<or> (\<exists>h m. e = Send h m) \<or> (\<exists>h r. e = Recv h r) \<or>
         (\<exists>ms. e = Aggregate ms) \<or> (\<exists>i l. e = Report i l)"
  using assms by (auto simp: round_events_def)

lemma rounds_events_kinds:
  "e \<in> set (rounds_events C ds settings i model rounds) \<Longrightarrow>
     (\<exists>ids. e = Select ids) \<or> (\<exists>h m. e = Send h m) \<or> (\<exists>h r. e = Recv h r) \<or>
     (\<exists>ms. e = Aggregate ms) \<or> (\<exists>i l. e = Report i l)"
proof (induction rounds arbitrary: i model)
  case Nil
  then show ?case by simp
next
  case (Cons sel rounds)
  from Cons.prems consider
    "e \<in> set (round_events C ds settings i model (fst sel) (snd sel))"
    | model' where "aggregate C ds settings model (snd sel) = Inr model'"
      "e \<in> set (rounds_events C ds settings (Suc i) model' rounds)"
    by (cases "aggregate C ds settings model (snd sel)") auto
  then show ?case
  proof cases
    case 1
    then show ?thesis by (rule round_events_kinds)
  next
    case 2
    from Cons.IH[OF 2(2)] show ?thesis .
  qed
qed

lemma train_federated_Returned:
  assumes wf: "wf_dataset ds" and en: "enough_subsets C ds settings"
    and run: "train_federated C model ds settings (initial_state g sched) = (Returned m, st)"
  shows "\<exists>st2. before_round C model ds settings (initial_state g sched)
             (nat (num_global_epochs settings)) = (Returned m, st2) \<and>
           ready_state C ds settings st2 \<and>
           st = shut_down C ds settings st2 (length (classes ds))"
proof -
  from run obtain st2 where
    b: "before_round C model ds settings (initial_state g sched)
             (nat (num_global_epochs settings)) = (Returned m, st2)"
    and t: "fst (terminate_devices ds st2) = Returned ()" "st = snd (terminate_devices ds st2)"
    by (auto simp: train_federated_before_round split: prod.splits outcome.splits)
  have rs: "ready_state C ds settings st2" using wf en b by (rule before_round_ready)
  with b t show ?thesis by (simp add: terminate_devices_ready[OF wf rs])
qed

lemma rounds_of_run:
  assumes wf: "wf_dataset ds" and en: "enough_subsets C ds settings"
    and run: "train_federated C model ds settings (initial_state g sched) = (Returned m, st)"
  shows "\<exists>rounds. length rounds = nat (num_global_epochs settings) \<and>
     (\<forall>sel \<in> set rounds.
        length (fst sel) = nat (MAX_USERS_IN_ROUND C) \<and> distinct (fst sel) \<and>
        set (fst sel) \<subseteq> {0..<length (classes ds)} \<and>
        distinct (snd sel) \<and> set (snd sel) = set (fst sel)) \<and>
     trace st = map Start [0..<length (classes ds)] @
       rounds_events C ds settings 0 model rounds @
       map Terminate [0..<length (classes ds)] \<and>
     rounds_model C ds settings model rounds = Inr m"
proof -
  from train_federated_Returned[OF wf en run] obtain st2 where
    b: "before_round C model ds settings (initial_state g sched)
             (nat (num_global_epochs settings)) = (Returned m, st2)"
    and st: "st = shut_down C ds settings st2 (length (classes ds))"
    by blast
  let ?boot = "booted C ds settings (initial_state g sched) (length (classes ds))"
  from b have rr: "run_rounds C ds [0..<0 + nat (num_global_epochs settings)] model ?boot =
      (Returned m, st2)"
    by (simp add: before_round_def start_devices_initial[OF wf en])
  from run_rounds_events[OF wf booted_ready rr] obtain rounds where
    r: "length rounds = nat (num_global_epochs settings)"
      "\<forall>sel \<in> set rounds.
        length (fst sel) = nat (MAX_USERS_IN_ROUND C) \<and> distinct (fst sel) \<and>
        set (fst sel) \<subseteq> {0..<length (classes ds)} \<and>
        distinct (snd sel) \<and> set (snd sel) = set (fst sel)"
      "trace st2 = trace ?boot @ rounds_events C ds settings 0 model rounds"
      "rounds_model C ds settings model rounds = Inr m"
    by blast
  have "trace st = map Start [0..<length (classes ds)] @
       rounds_events C ds settings 0 model rounds @
       map Terminate [0..<length (classes ds)]"
    by (simp add: st shut_down_def r(3) booted_def initial_state_def)
  with r show ?thesis by (intro exI[of _ rounds]) simp
qed

text \<open>
  Claim C5. A run of \<^verbatim>\<open>train_federated\<close> that returns has made exactly
  \<^verbatim>\<open>num_global_epochs\<close> rounds, one after the other: after the starts of the devices,
  its trace is the events of round 0, then those of round 1, and so on, and then the
  terminations. Each round is its selection, its sends, its receives from exactly the
  selected devices, its aggregation and its report, in this order. Round 0 sends the
  model that \<^verbatim>\<open>train_federated\<close> was given; every later round sends the model that the
  aggregator returned in the round before it, so that its dispatch follows that
  aggregation and the adoption of its result; the model returned is the aggregate of the
  last round.
\<close>

theorem rounds_in_sequence:
  assumes wf: "wf_dataset ds" and en: "enough_subsets C ds settings"
    and run: "train_federated C model ds settings (initial_state g sched) = (Returned m, st)"
  shows "\<exists>rounds. length rounds = nat (num_global_epochs settings) \<and>
     (\<forall>sel \<in> set rounds.
        length (fst sel) = nat (MAX_USERS_IN_ROUND C) \<and> distinct (fst sel) \<and>
        set (fst sel) \<subseteq> {0..<length (classes ds)} \<and>
        distinct (snd sel) \<and> set (snd sel) = set (fst sel)) \<and>
     trace st = map Start [0..<length (classes ds)] @
       rounds_events C ds settings 0 model rounds @
       map Terminate [0..<length (classes ds)] \<and>
     rounds_model C ds settings model rounds = Inr m"
  using wf en run by (rule rounds_of_run)

lemma example_run:
  "train_federated example_collaborators 0 example_dataset example_settings example_start =
     (Returned 2,
      snd (train_federated example_collaborators 0 example_dataset example_settings example_start))"
proof -
  have "fst (train_federated example_collaborators 0 example_dataset example_settings
      example_start) = Returned 2"
    by code_simp
  then show ?thesis by (simp add: prod_eq_iff)
qed

theorem rounds_in_sequence_witness:
  "\<exists>rounds. length rounds = nat (num_global_epochs example_settings) \<and>
     (\<forall>sel \<in> set rounds.
        length (fst sel) = nat (MAX_USERS_IN_ROUND example_collaborators) \<and>
        distinct (fst sel) \<and> set (fst sel) \<subseteq> {0..<length (classes example_dataset)} \<and>
        distinct (snd sel) \<and> set (snd sel) = set (fst sel)) \<and>
     trace (snd (train_federated example_collaborators 0 example_dataset example_settings
       example_start)) =
       map Start [0..<length (classes example_dataset)] @
       rounds_events example_collaborators example_dataset example_settings 0 0 rounds @
       map Terminate [0..<length (classes example_dataset)] \<and>
     rounds_model example_collaborators example_dataset example_settings 0 rounds = Inr 2"
  using rounds_in_sequence[OF example_wf example_enough example_run] .

text \<open>
  Claim C7, as amended. When \<^verbatim>\<open>train_federated\<close> returns, it has called
  \<^verbatim>\<open>terminate\<close> exactly once on every process of the roster, selected in some round or
  not, after the last round and in the order of the roster, so that every process has
  been signalled to stop. It has called \<^verbatim>\<open>join\<close> on none of them: it does not wait
  for a process to finish.
\<close>

theorem shutdown_terminates_roster:
  assumes wf: "wf_dataset ds" and en: "enough_subsets C ds settings"
    and run: "train_federated C model ds settings (initial_state g sched) = (Returned m, st)"
  shows "\<exists>earlier. trace st = earlier @ map Terminate [0..<length (classes ds)] \<and>
     (\<forall>p. Terminate p \<notin> set earlier) \<and> (\<forall>p. Join p \<notin> set (trace st)) \<and>
     length (processes st) = length (device_connections st) \<and>
     map fst (device_connections st) = [0..<length (classes ds)] \<and>
     map dev_state (processes st) = replicate (length (classes ds)) Signalled"
proof -
  from train_federated_Returned[OF wf en run] obtain st2 where
    rs: "ready_state C ds settings st2"
    and st: "st = shut_down C ds settings st2 (length (classes ds))"
    by blast
  from rounds_of_run[OF wf en run] obtain rounds where
    r: "trace st = map Start [0..<length (classes ds)] @
       rounds_events C ds settings 0 model rounds @
       map Terminate [0..<length (classes ds)]"
    by blast
  let ?earlier = "map Start [0..<length (classes ds)] @ rounds_events C ds settings 0 model rounds"
  note ev = rounds_events_kinds[of _ C ds settings 0 model rounds]
  have "Terminate p \<notin> set ?earlier" for p using ev[of "Terminate p"] by auto
  moreover have "Join p \<notin> set (trace st)" for p using ev[of "Join p"] by (auto simp: r)
  moreover have "map dev_state (processes st) = replicate (length (classes ds)) Signalled"
    by (simp add: st shut_down_def device_of_def comp_def map_replicate_const)
  moreover have "length (processes st) = length (device_connections st)"
    "map fst (device_connections st) = [0..<length (classes ds)]"
    using rs by (simp_all add: st shut_down_def ready_state_def roster_def comp_def)
  ultimately show ?thesis using r by (intro exI[of _ ?earlier]) simp
qed

theorem shutdown_terminates_roster_witness:
  "\<exists>earlier.
     trace (snd (train_federated example_collaborators 0 example_dataset example_settings
       example_start)) = earlier @ map Terminate [0..<length (classes example_dataset)] \<and>
     (\<forall>p. Terminate p \<notin> set earlier) \<and>
     (\<forall>p. Join p \<notin> set (trace (snd (train_federated example_collaborators 0 example_dataset
        example_settings example_start)))) \<and>
     length (processes (snd (train_federated example_collaborators 0 example_dataset
        example_settings example_start))) =
       length (device_connections (snd (train_federated example_collaborators 0 example_dataset
        example_settings example_start))) \<and>
     map fst (device_connections (snd (train_federated example_collaborators 0 example_dataset
        example_settings example_start))) = [0..<length (classes example_dataset)] \<and>
     map dev_state (processes (snd (train_federated example_collaborators 0 example_dataset
        example_settings example_start))) =
       replicate (length (classes example_dataset)) Signalled"
  using shutdown_terminates_roster[OF example_wf example_enough example_run] .

theorem never_joined_counterexample:
  "fst (train_federated example_collaborators 0 example_dataset example_settings example_start) =
     Returned 2 \<and>
   Join 0 \<notin> set (trace (snd (train_federated example_collaborators 0 example_dataset
     example_settings example_start))) \<and>
   last (trace (snd (train_federated example_collaborators 0 example_dataset
     example_settings example_start))) = Terminate 2 \<and>
   map dev_state (processes (snd (train_federated example_collaborators 0 example_dataset
     example_settings example_start))) = [Signalled, Signalled, Signalled]"
  by code_simp

text \<open>
  Claim C10. With \<^verbatim>\<open>num_global_epochs = 0\<close>, \<^verbatim>\<open>train_federated\<close> returns the model it was
  given, whatever the schedule: it starts the devices and terminates every one of them,
  and in between it selects nothing (numpy's generator is untouched), sends and receives
  nothing (the pipes are empty, no device has used its end) and aggregates nothing.
\<close>

theorem zero_epochs:
  assumes wf: "wf_dataset ds" and en: "enough_subsets C ds settings"
    and zero: "num_global_epochs settings = 0"
  shows "\<exists>st. train_federated C model ds settings (initial_state g sched) = (Returned model, st) \<and>
     trace st = map Start [0..<length (classes ds)] @ map Terminate [0..<length (classes ds)] \<and>
     length (processes st) = length (device_connections st) \<and>
     map dev_state (processes st) = replicate (length (classes ds)) Signalled \<and>
     np_random st = g \<and> device_trace st = [] \<and> schedule st = sched \<and>
     (\<forall>h. to_device st h = [] \<and> to_server st h = [])"
proof -
  let ?boot = "booted C ds settings (initial_state g sched) (length (classes ds))"
  let ?fin = "shut_down C ds settings ?boot (length (classes ds))"
  have b: "before_round C model ds settings (initial_state g sched) 0 = (Returned model, ?boot)"
    by (simp add: before_round_def start_devices_initial[OF wf en])
  have t: "terminate_devices ds ?boot = (Returned (), ?fin)"
    using wf booted_ready by (rule terminate_devices_ready)
  have "train_federated C model ds settings (initial_state g sched) = (Returned model, ?fin)"
    unfolding train_federated_before_round by (simp add: zero b t)
  moreover have "trace ?fin =
      map Start [0..<length (classes ds)] @ map Terminate [0..<length (classes ds)]"
    "length (processes ?fin) = length (device_connections ?fin)"
    "map dev_state (processes ?fin) = replicate (length (classes ds)) Signalled"
    "np_random ?fin = g" "device_trace ?fin = []" "schedule ?fin = sched"
    "\<forall>h. to_device ?fin h = [] \<and> to_server ?fin h = []"
    by (simp_all add: shut_down_def booted_def initial_state_def device_of_def comp_def
        map_replicate_const roster_def)
  ultimately show ?thesis by (intro exI[of _ ?fin]) simp
qed

lemma example_enough_zero:
  "enough_subsets example_collaborators example_dataset
     (example_settings\<lparr>num_global_epochs := 0\<rparr>)"
  by code_simp

theorem zero_epochs_witness:
  "\<exists>st. train_federated example_collaborators 7 example_dataset
          (example_settings\<lparr>num_global_epochs := 0\<rparr>) example_start = (Returned 7, st) \<and>
     trace st = map Start [0..<length (classes example_dataset)] @
       map Terminate [0..<length (classes example_dataset)] \<and>
     length (processes st) = length (device_connections st) \<and>
     map dev_state (processes st) = replicate (length (classes example_dataset)) Signalled \<and>
     np_random st = 5 \<and> device_trace st = [] \<and> schedule st = example_schedule \<and>
     (\<forall>h. to_device st h = [] \<and> to_server st h = [])"
proof -
  have z: "num_global_epochs (example_settings\<lparr>num_global_epochs := 0\<rparr>) = 0" by simp
  show ?thesis using zero_epochs[OF example_wf example_enough_zero z] .
qed

section \<open>The rounds, one by one\<close>

lemma recv_results_append [simp]:
  "recv_results (xs @ ys) = recv_results xs @ recv_results ys"
  by (induction xs rule: recv_results.induct) simp_all

lemma recv_results_sends [simp]: "recv_results (map (\<lambda>h. Send h (m h)) xs) = []"
  by (induction xs) simp_all

lemma recv_results_recvs [simp]: "recv_results (map (\<lambda>h. Recv h (f h)) xs) = map f xs"
  by (induction xs) simp_all

lemma sent_to_append [simp]: "sent_to (xs @ ys) = sent_to xs @ sent_to ys"
  by (induction xs rule: sent_to.induct) simp_all

lemma sent_to_sends [simp]: "sent_to (map (\<lambda>h. Send h (m h)) xs) = map (\<lambda>h. (h, m h)) xs"
  by (induction xs) simp_all

lemma sent_to_recvs [simp]: "sent_to (map (\<lambda>h. Recv h (f h)) xs) = []"
  by (induction xs) simp_all

lemma selections_append [simp]: "selections (xs @ ys) = selections xs @ selections ys"
  by (induction xs rule: selections.induct) simp_all

lemma selections_sends [simp]: "selections (map (\<lambda>h. Send h (m h)) xs) = []"
  by (induction xs) simp_all

lemma selections_recvs [simp]: "selections (map (\<lambda>h. Recv h (f h)) xs) = []"
  by (induction xs) simp_all


lemma sent_to_round_events:
  "sent_to (round_events C ds settings i model ids js) = map (\<lambda>h. (h, model)) ids"
  by (simp add: round_events_def)
















end
